theory Spec2Isabelle
  imports Complex_Main
begin

section \<open>Python values and errors\<close>

text \<open>
  A Python \<open>str\<close> is a sequence of Unicode code points (numbers below \<open>0x110000\<close>,
  surrogate code points included); \<open>bytes\<close> is a sequence of numbers below 256.
  Exceptions are values of \<open>py_error\<close>; a function that may raise returns
  \<open>py_error + 'a\<close>, with \<open>Inl\<close> for the exception.
\<close>

type_synonym str = "nat list"
type_synonym bytes = "nat list"

definition ascii :: "string \<Rightarrow> str" where
  "ascii s = map of_char s"

datatype py_error =
    Exception str
  | KeyError str
  | TypeError
  | ValueError
  | UnicodeEncodeError
  | UnicodeDecodeError
  | binascii_Error
  | csv_Error
  | JSONDecodeError
  | RequestException

section \<open>The UTF-8 codec (\<open>str.encode('utf-8')\<close>, \<open>bytes.decode('utf-8')\<close>)\<close>

text \<open>
  Both directions are strict (the default error handler): encoding raises on a surrogate
  code point, decoding raises on every ill-formed byte sequence.
\<close>

definition is_str :: "str \<Rightarrow> bool" where
  "is_str s = (\<forall>c \<in> set s. c < 0x110000)"

definition is_surrogate :: "nat \<Rightarrow> bool" where
  "is_surrogate c = (0xD800 \<le> c \<and> c \<le> 0xDFFF)"

definition utf8_encode_char :: "nat \<Rightarrow> py_error + bytes" where
  "utf8_encode_char c =
     (if c < 0x80 then Inr [c]
      else if c < 0x800 then Inr [0xC0 + c div 64, 0x80 + c mod 64]
      else if is_surrogate c then Inl UnicodeEncodeError
      else if c < 0x10000 then
        Inr [0xE0 + c div 4096, 0x80 + (c div 64) mod 64, 0x80 + c mod 64]
      else
        Inr [0xF0 + c div 262144, 0x80 + (c div 4096) mod 64,
             0x80 + (c div 64) mod 64, 0x80 + c mod 64])"

fun utf8_encode :: "str \<Rightarrow> py_error + bytes" where
  "utf8_encode [] = Inr []"
| "utf8_encode (c # cs) =
     (case utf8_encode_char c of
        Inl e \<Rightarrow> Inl e
      | Inr bs \<Rightarrow> (case utf8_encode cs of Inl e \<Rightarrow> Inl e | Inr r \<Rightarrow> Inr (bs @ r)))"

definition cont :: "nat \<Rightarrow> bool" where
  "cont b = (0x80 \<le> b \<and> b \<le> 0xBF)"

definition emit :: "nat \<Rightarrow> py_error + str \<Rightarrow> py_error + str" where
  "emit c r = (case r of Inl e \<Rightarrow> Inl e | Inr s \<Rightarrow> Inr (c # s))"

fun utf8_decode :: "bytes \<Rightarrow> py_error + str" where
  "utf8_decode [] = Inr []"
| "utf8_decode (b0 # bs) =
     (if b0 < 0x80 then emit b0 (utf8_decode bs)
      else if 0xC2 \<le> b0 \<and> b0 \<le> 0xDF then
        (case bs of
           b1 # r \<Rightarrow>
             if cont b1 then emit ((b0 - 0xC0) * 64 + (b1 - 0x80)) (utf8_decode r)
             else Inl UnicodeDecodeError
         | _ \<Rightarrow> Inl UnicodeDecodeError)
      else if 0xE0 \<le> b0 \<and> b0 \<le> 0xEF then
        (case bs of
           b1 # b2 # r \<Rightarrow>
             if (if b0 = 0xE0 then 0xA0 \<le> b1 \<and> b1 \<le> 0xBF
                 else if b0 = 0xED then 0x80 \<le> b1 \<and> b1 \<le> 0x9F
                 else cont b1) \<and> cont b2
             then emit ((b0 - 0xE0) * 4096 + (b1 - 0x80) * 64 + (b2 - 0x80)) (utf8_decode r)
             else Inl UnicodeDecodeError
         | _ \<Rightarrow> Inl UnicodeDecodeError)
      else if 0xF0 \<le> b0 \<and> b0 \<le> 0xF4 then
        (case bs of
           b1 # b2 # b3 # r \<Rightarrow>
             if (if b0 = 0xF0 then 0x90 \<le> b1 \<and> b1 \<le> 0xBF
                 else if b0 = 0xF4 then 0x80 \<le> b1 \<and> b1 \<le> 0x8F
                 else cont b1) \<and> cont b2 \<and> cont b3
             then emit ((b0 - 0xF0) * 262144 + (b1 - 0x80) * 4096 + (b2 - 0x80) * 64 + (b3 - 0x80))
                    (utf8_decode r)
             else Inl UnicodeDecodeError
         | _ \<Rightarrow> Inl UnicodeDecodeError)
      else Inl UnicodeDecodeError)"

datatype jval =
    JNull
  | JBool bool
  | JInt int
  | JFloat real
  | JStr str
  | JArr "jval list"
  | JObj "(str \<times> jval) list"

section \<open>Base64 (\<open>base64.b64encode\<close>, \<open>base64.b64decode\<close>)\<close>

text \<open>
  \<open>b64decode\<close> is called with its default \<open>validate=False\<close>: characters outside the
  alphabet are skipped, and decoding stops at the padding that completes a quad
  (\<open>binascii.a2b_base64\<close> in its non-strict mode, as of CPython 3.11). In
  \<open>a2b_base64\<close> the C code combines the bits with shifts and \<open>|\<close>; the operands never
  overlap, so the sums below are the same numbers.
\<close>

definition b2a_table :: "nat \<Rightarrow> nat" where
  "b2a_table n =
     (if n < 26 then 65 + n
      else if n < 52 then 71 + n
      else if n < 62 then n - 4
      else if n = 62 then 43
      else 47)"

definition a2b_table :: "nat \<Rightarrow> nat option" where
  "a2b_table ch =
     (if 65 \<le> ch \<and> ch \<le> 90 then Some (ch - 65)
      else if 97 \<le> ch \<and> ch \<le> 122 then Some (ch - 71)
      else if 48 \<le> ch \<and> ch \<le> 57 then Some (ch + 4)
      else if ch = 43 then Some 62
      else if ch = 47 then Some 63
      else None)"

definition BASE64_PAD :: nat where
  "BASE64_PAD = 61"

fun b2a_base64 :: "bytes \<Rightarrow> bytes" where
  "b2a_base64 (a # b # c # rest) =
     [b2a_table (a div 4), b2a_table ((a mod 4) * 16 + b div 16),
      b2a_table ((b mod 16) * 4 + c div 64), b2a_table (c mod 64)] @ b2a_base64 rest"
| "b2a_base64 [a, b] =
     [b2a_table (a div 4), b2a_table ((a mod 4) * 16 + b div 16),
      b2a_table ((b mod 16) * 4), BASE64_PAD]"
| "b2a_base64 [a] =
     [b2a_table (a div 4), b2a_table ((a mod 4) * 16), BASE64_PAD, BASE64_PAD]"
| "b2a_base64 [] = []"

fun a2b_base64 :: "nat \<Rightarrow> nat \<Rightarrow> nat \<Rightarrow> bytes \<Rightarrow> bytes \<Rightarrow> py_error + bytes" where
  "a2b_base64 quad_pos leftchar pads bin_data [] =
     (if quad_pos \<noteq> 0 then Inl binascii_Error else Inr bin_data)"
| "a2b_base64 quad_pos leftchar pads bin_data (this_ch # rest) =
     (if this_ch = BASE64_PAD then
        (if quad_pos \<ge> 2 then
           (if quad_pos + (pads + 1) \<ge> 4 then Inr bin_data
            else a2b_base64 quad_pos leftchar (pads + 1) bin_data rest)
         else a2b_base64 quad_pos leftchar pads bin_data rest)
      else
        (case a2b_table this_ch of
           None \<Rightarrow> a2b_base64 quad_pos leftchar pads bin_data rest
         | Some v \<Rightarrow>
             (if quad_pos = 0 then a2b_base64 1 v 0 bin_data rest
              else if quad_pos = 1 then
                a2b_base64 2 (v mod 16) 0 (bin_data @ [leftchar * 4 + v div 16]) rest
              else if quad_pos = 2 then
                a2b_base64 3 (v mod 4) 0 (bin_data @ [leftchar * 16 + v div 4]) rest
              else a2b_base64 0 0 0 (bin_data @ [leftchar * 64 + v]) rest)))"

definition encode_ascii :: "str \<Rightarrow> py_error + bytes" where
  "encode_ascii s = (if \<forall>c \<in> set s. c < 128 then Inr s else Inl ValueError)"

definition b64decode :: "jval \<Rightarrow> py_error + bytes" where
  "b64decode s =
     (case s of
        JStr t \<Rightarrow> (case encode_ascii t of Inl e \<Rightarrow> Inl e | Inr bs \<Rightarrow> a2b_base64 0 0 0 [] bs)
      | _ \<Rightarrow> Inl TypeError)"

definition b64encode :: "bytes \<Rightarrow> bytes" where
  "b64encode s = b2a_base64 s"

section \<open>The helper lambdas of the pipeline\<close>

definition decode_content :: "jval \<Rightarrow> py_error + str" where
  "decode_content content =
     (case b64decode content of Inl e \<Rightarrow> Inl e | Inr bs \<Rightarrow> utf8_decode bs)"

definition encode_content :: "str \<Rightarrow> py_error + str" where
  "encode_content content =
     (case utf8_encode content of Inl e \<Rightarrow> Inl e | Inr bs \<Rightarrow> utf8_decode (b64encode bs))"

definition is_bytes :: "bytes \<Rightarrow> bool" where
  "is_bytes bs = (\<forall>b \<in> set bs. b < 256)"

section \<open>Reading CSV (\<open>csv.DictReader(StringIO(csv_text))\<close>)\<close>

text \<open>
  Iterating a \<open>StringIO\<close> yields the lines of the text, each with its terminating line
  feed; with the default \<open>newline='\n'\<close> only a line feed ends a line.
\<close>

fun StringIO_lines :: "str \<Rightarrow> str list" where
  "StringIO_lines [] = []"
| "StringIO_lines (c # cs) =
     (if c = 10 then [c] # StringIO_lines cs
      else (case StringIO_lines cs of [] \<Rightarrow> [[c]] | l # ls \<Rightarrow> (c # l) # ls))"

text \<open>
  The reader of the \<open>_csv\<close> module with the \<open>excel\<close> dialect (delimiter \<open>,\<close>, quote
  character \<open>"\<close>, doubled quotes, no escape character, not strict, no skipping of
  initial spaces). \<open>parse_process_char\<close> is its state machine; the argument \<open>None\<close> is
  the end-of-line marker the reader feeds after the last character of each line. The
  states that only an escape character reaches are left out. \<open>Reader_rows\<close> is the
  sequence of all records: a record ends when the machine is back in \<open>START_RECORD\<close>
  at the end of a line, and after the last line an unfinished quoted field is closed.
\<close>

datatype ParserState =
  START_RECORD | START_FIELD | IN_FIELD | IN_QUOTED_FIELD | QUOTE_IN_QUOTED_FIELD | EAT_CRNL

record ReaderObj =
  fields_lst :: "str list"
  field :: str
  state :: ParserState

definition delimiter :: nat where
  "delimiter = 44"

definition quotechar :: nat where
  "quotechar = 34"

definition field_limit :: nat where
  "field_limit = 131072"

definition parse_reset :: ReaderObj where
  "parse_reset = \<lparr>fields_lst = [], field = [], state = START_RECORD\<rparr>"

definition parse_save_field :: "ReaderObj \<Rightarrow> ReaderObj" where
  "parse_save_field self = self\<lparr>fields_lst := fields_lst self @ [field self], field := []\<rparr>"

definition parse_add_char :: "ReaderObj \<Rightarrow> nat \<Rightarrow> py_error + ReaderObj" where
  "parse_add_char self c =
     (if length (field self) \<ge> field_limit then Inl csv_Error
      else Inr (self\<lparr>field := field self @ [c]\<rparr>))"

definition set_state :: "ParserState \<Rightarrow> py_error + ReaderObj \<Rightarrow> py_error + ReaderObj" where
  "set_state s r = (case r of Inl e \<Rightarrow> Inl e | Inr self \<Rightarrow> Inr (self\<lparr>state := s\<rparr>))"

definition start_field :: "ReaderObj \<Rightarrow> nat option \<Rightarrow> py_error + ReaderObj" where
  "start_field self c =
     (case c of
        None \<Rightarrow> Inr ((parse_save_field self)\<lparr>state := START_RECORD\<rparr>)
      | Some ch \<Rightarrow>
          if ch = 10 \<or> ch = 13 then Inr ((parse_save_field self)\<lparr>state := EAT_CRNL\<rparr>)
          else if ch = quotechar then Inr (self\<lparr>state := IN_QUOTED_FIELD\<rparr>)
          else if ch = delimiter then Inr (parse_save_field self)
          else set_state IN_FIELD (parse_add_char self ch))"

definition parse_process_char :: "ReaderObj \<Rightarrow> nat option \<Rightarrow> py_error + ReaderObj" where
  "parse_process_char self c =
     (case state self of
        START_RECORD \<Rightarrow>
          (case c of
             None \<Rightarrow> Inr self
           | Some ch \<Rightarrow>
               if ch = 10 \<or> ch = 13 then Inr (self\<lparr>state := EAT_CRNL\<rparr>)
               else start_field (self\<lparr>state := START_FIELD\<rparr>) c)
      | START_FIELD \<Rightarrow> start_field self c
      | IN_FIELD \<Rightarrow>
          (case c of
             None \<Rightarrow> Inr ((parse_save_field self)\<lparr>state := START_RECORD\<rparr>)
           | Some ch \<Rightarrow>
               if ch = 10 \<or> ch = 13 then Inr ((parse_save_field self)\<lparr>state := EAT_CRNL\<rparr>)
               else if ch = delimiter then Inr ((parse_save_field self)\<lparr>state := START_FIELD\<rparr>)
               else parse_add_char self ch)
      | IN_QUOTED_FIELD \<Rightarrow>
          (case c of
             None \<Rightarrow> Inr self
           | Some ch \<Rightarrow>
               if ch = quotechar then Inr (self\<lparr>state := QUOTE_IN_QUOTED_FIELD\<rparr>)
               else parse_add_char self ch)
      | QUOTE_IN_QUOTED_FIELD \<Rightarrow>
          (case c of
             None \<Rightarrow> Inr ((parse_save_field self)\<lparr>state := START_RECORD\<rparr>)
           | Some ch \<Rightarrow>
               if ch = quotechar then set_state IN_QUOTED_FIELD (parse_add_char self ch)
               else if ch = delimiter then Inr ((parse_save_field self)\<lparr>state := START_FIELD\<rparr>)
               else if ch = 10 \<or> ch = 13 then Inr ((parse_save_field self)\<lparr>state := EAT_CRNL\<rparr>)
               else set_state IN_FIELD (parse_add_char self ch))
      | EAT_CRNL \<Rightarrow>
          (case c of
             None \<Rightarrow> Inr (self\<lparr>state := START_RECORD\<rparr>)
           | Some ch \<Rightarrow> if ch = 10 \<or> ch = 13 then Inr self else Inl csv_Error))"

fun parse_line :: "ReaderObj \<Rightarrow> str \<Rightarrow> py_error + ReaderObj" where
  "parse_line self [] = parse_process_char self None"
| "parse_line self (c # cs) =
     (case parse_process_char self (Some c) of
        Inl e \<Rightarrow> Inl e
      | Inr self' \<Rightarrow> parse_line self' cs)"

fun Reader_rows :: "ReaderObj \<Rightarrow> str list \<Rightarrow> py_error + str list list" where
  "Reader_rows self [] =
     (if field self \<noteq> [] \<or> state self = IN_QUOTED_FIELD
      then Inr [fields_lst (parse_save_field self)] else Inr [])"
| "Reader_rows self (line # lines) =
     (case parse_line self line of
        Inl e \<Rightarrow> Inl e
      | Inr self' \<Rightarrow>
          if state self' \<noteq> START_RECORD then Reader_rows self' lines
          else (case Reader_rows parse_reset lines of
                  Inl e \<Rightarrow> Inl e
                | Inr rows \<Rightarrow> Inr (fields_lst self' # rows)))"

definition csv_reader :: "str list \<Rightarrow> py_error + str list list" where
  "csv_reader lines = Reader_rows parse_reset lines"

text \<open>
  \<open>DictReader\<close> takes the first record as the field names, skips every later empty
  record, and turns each other record into a dictionary in insertion order: surplus
  values go under the key \<open>None\<close> as a list (\<open>Rest\<close>), missing values are \<open>None\<close>
  (\<open>Missing\<close>). A dictionary is an association list with distinct keys; \<open>dict_set\<close> is
  item assignment.
\<close>

datatype cell = Text str | Rest "str list" | Missing

type_synonym row_dict = "(str option \<times> cell) list"

fun dict_set :: "('k \<times> 'v) list \<Rightarrow> 'k \<Rightarrow> 'v \<Rightarrow> ('k \<times> 'v) list" where
  "dict_set [] k v = [(k, v)]"
| "dict_set ((k', v') # d) k v =
     (if k' = k then (k', v) # d else (k', v') # dict_set d k v)"

definition dict_zip :: "str list \<Rightarrow> str list \<Rightarrow> row_dict" where
  "dict_zip fieldnames row =
     fold (\<lambda>(k, v) d. dict_set d (Some k) (Text v)) (zip fieldnames row) []"

definition DictReader_row :: "str list \<Rightarrow> str list \<Rightarrow> row_dict" where
  "DictReader_row fieldnames row =
     (let d = dict_zip fieldnames row;
          lf = length fieldnames;
          lr = length row
      in if lf < lr then dict_set d None (Rest (drop lf row))
         else if lf > lr then fold (\<lambda>key d. dict_set d (Some key) Missing) (drop lr fieldnames) d
         else d)"

definition DictReader :: "str list \<Rightarrow> py_error + row_dict list" where
  "DictReader lines =
     (case csv_reader lines of
        Inl e \<Rightarrow> Inl e
      | Inr [] \<Rightarrow> Inr []
      | Inr (fieldnames # rows) \<Rightarrow>
          Inr (map (DictReader_row fieldnames) (filter (\<lambda>row. row \<noteq> []) rows)))"

definition parse_csv :: "str \<Rightarrow> py_error + row_dict list" where
  "parse_csv csv_text = DictReader (StringIO_lines csv_text)"

section \<open>Writing JSON (\<open>json.dumps(data, indent=2)\<close>)\<close>

text \<open>
  With \<open>ensure_ascii\<close> (the default) every character outside the printable ASCII range
  is written as a \<open>\uXXXX\<close> escape, a code point beyond the basic plane as a surrogate
  pair. With an indent the item separator is a comma followed by a line break and the
  indentation of the current level, and the key separator is a colon and a space.
\<close>

definition hexdigit :: "nat \<Rightarrow> nat" where
  "hexdigit n = (if n < 10 then 48 + n else 87 + n)"

definition u_escape :: "nat \<Rightarrow> str" where
  "u_escape n =
     [92, 117, hexdigit (n div 4096), hexdigit (n div 256 mod 16),
      hexdigit (n div 16 mod 16), hexdigit (n mod 16)]"

definition escape_char :: "nat \<Rightarrow> str" where
  "escape_char c =
     (if c = 34 then [92, 34]
      else if c = 92 then [92, 92]
      else if c = 10 then [92, 110]
      else if c = 13 then [92, 114]
      else if c = 9 then [92, 116]
      else if c = 12 then [92, 102]
      else if c = 8 then [92, 98]
      else if 32 \<le> c \<and> c \<le> 126 then [c]
      else if c < 0x10000 then u_escape c
      else u_escape (0xD800 + (c - 0x10000) div 1024 mod 1024)
           @ u_escape (0xDC00 + (c - 0x10000) mod 1024))"

definition encode_basestring_ascii :: "str \<Rightarrow> str" where
  "encode_basestring_ascii s = [34] @ concat (map escape_char s) @ [34]"

definition newline_indent :: "nat \<Rightarrow> str" where
  "newline_indent level = 10 # replicate (2 * level) 32"

fun join :: "str \<Rightarrow> str list \<Rightarrow> str" where
  "join sep [] = []"
| "join sep [x] = x"
| "join sep (x # y # ys) = x @ sep @ join sep (y # ys)"

definition iterencode_list :: "('a \<Rightarrow> str) \<Rightarrow> 'a list \<Rightarrow> nat \<Rightarrow> str" where
  "iterencode_list enc lst level =
     (if lst = [] then ascii ''[]''
      else ascii ''['' @ newline_indent (level + 1)
           @ join (ascii '','' @ newline_indent (level + 1)) (map enc lst)
           @ newline_indent level @ ascii '']'')"

definition encode_key :: "str option \<Rightarrow> str" where
  "encode_key key =
     (case key of Some s \<Rightarrow> encode_basestring_ascii s
      | None \<Rightarrow> encode_basestring_ascii (ascii ''null''))"

definition encode_cell :: "cell \<Rightarrow> nat \<Rightarrow> str" where
  "encode_cell v level =
     (case v of
        Text s \<Rightarrow> encode_basestring_ascii s
      | Missing \<Rightarrow> ascii ''null''
      | Rest l \<Rightarrow> iterencode_list encode_basestring_ascii l level)"

definition iterencode_dict :: "row_dict \<Rightarrow> nat \<Rightarrow> str" where
  "iterencode_dict dct level =
     (if dct = [] then ascii ''{}''
      else ascii ''{'' @ newline_indent (level + 1)
           @ join (ascii '','' @ newline_indent (level + 1))
               (map (\<lambda>(key, v). encode_key key @ ascii '': '' @ encode_cell v (level + 1)) dct)
           @ newline_indent level @ ascii ''}'')"

definition to_json :: "row_dict list \<Rightarrow> str" where
  "to_json data = iterencode_list (\<lambda>d. iterencode_dict d 1) data 0"

section \<open>The pipeline\<close>

text \<open>
  \<open>str_int\<close> is \<open>str\<close> on an integer, as the f-strings format the status code and the
  number of rows.
\<close>

fun str_nat :: "nat \<Rightarrow> str" where
  "str_nat n = (if n < 10 then [48 + n] else str_nat (n div 10) @ [48 + n mod 10])"

definition str_int :: "int \<Rightarrow> str" where
  "str_int i = (if i < 0 then 45 # str_nat (nat (- i)) else str_nat (nat i))"

definition GITHUB_TOKEN :: str where
  "GITHUB_TOKEN = ascii ''PLACE_YOUR_TOKEN''"

definition SOURCE_OWNER :: str where
  "SOURCE_OWNER = ascii ''Shazizan''"

definition SOURCE_REPO :: str where
  "SOURCE_REPO = ascii ''data''"

definition SOURCE_FILE_PATH :: str where
  "SOURCE_FILE_PATH = ascii ''stocks_toy.csv''"

definition DEST_OWNER :: str where
  "DEST_OWNER = ascii ''Shazizan''"

definition DEST_REPO :: str where
  "DEST_REPO = ascii ''pipeline-vault''"

definition DEST_FILE_PATH :: str where
  "DEST_FILE_PATH = ascii ''stocks_toy.json''"

type_synonym headers = "(str \<times> str) list"

definition create_headers :: "str \<Rightarrow> headers" where
  "create_headers token =
     [(ascii ''Authorization'', ascii ''Bearer '' @ token),
      (ascii ''Accept'', ascii ''application/vnd.github.v3+json''),
      (ascii ''Content-Type'', ascii ''application/json'')]"

definition build_url :: "str \<Rightarrow> str \<Rightarrow> str \<Rightarrow> str" where
  "build_url owner repo path =
     ascii ''https://api.github.com/repos/'' @ owner @ ascii ''/'' @ repo
       @ ascii ''/contents/'' @ path"

text \<open>
  The network and the console are explicit state. A \<open>world\<close> holds the state of the
  remote servers, the requests sent so far and the lines printed so far. The servers are
  a parameter: \<open>serve\<close> answers a request with a response or raises (a transport
  failure), and may change the remote state. \<open>body_json\<close> is what \<open>response.json()\<close>
  returns or raises. The text that \<open>str\<close> gives for an exception raised by a library and
  for a JSON value other than a string are parameters too.
\<close>

datatype request =
    GET str headers
  | PUT str headers "(str \<times> jval) list"

record response =
  status_code :: int
  body_text :: str
  body_json :: "py_error + jval"

record 'w env =
  serve :: "'w \<Rightarrow> request \<Rightarrow> (py_error + response) \<times> 'w"
  str_exception :: "py_error \<Rightarrow> str"
  str_value :: "jval \<Rightarrow> str"

record 'w world =
  remote :: 'w
  sent :: "request list"
  stdout :: "str list"

definition print :: "str \<Rightarrow> 'w world \<Rightarrow> 'w world" where
  "print line s = s\<lparr>stdout := stdout s @ [line]\<rparr>"

definition send :: "'w env \<Rightarrow> request \<Rightarrow> 'w world \<Rightarrow> (py_error + response) \<times> 'w world" where
  "send env req s =
     (case serve env (remote s) req of
        (r, w) \<Rightarrow> (r, s\<lparr>remote := w, sent := sent s @ [req]\<rparr>))"

definition requests_get ::
  "'w env \<Rightarrow> str \<Rightarrow> headers \<Rightarrow> 'w world \<Rightarrow> (py_error + response) \<times> 'w world" where
  "requests_get env url hdrs s = send env (GET url hdrs) s"

definition requests_put ::
  "'w env \<Rightarrow> str \<Rightarrow> headers \<Rightarrow> (str \<times> jval) list \<Rightarrow> 'w world
     \<Rightarrow> (py_error + response) \<times> 'w world" where
  "requests_put env url hdrs payload s = send env (PUT url hdrs payload) s"

definition getitem :: "jval \<Rightarrow> str \<Rightarrow> py_error + jval" where
  "getitem v key =
     (case v of
        JObj d \<Rightarrow> (case map_of d key of None \<Rightarrow> Inl (KeyError key) | Some x \<Rightarrow> Inr x)
      | _ \<Rightarrow> Inl TypeError)"

definition str_of_exception :: "'w env \<Rightarrow> py_error \<Rightarrow> str" where
  "str_of_exception env e = (case e of Exception msg \<Rightarrow> msg | _ \<Rightarrow> str_exception env e)"

definition format_value :: "'w env \<Rightarrow> jval \<Rightarrow> str" where
  "format_value env v = (case v of JStr s \<Rightarrow> s | _ \<Rightarrow> str_value env v)"

definition extract_csv_from_github ::
  "'w env \<Rightarrow> str \<Rightarrow> str \<Rightarrow> str \<Rightarrow> str \<Rightarrow> 'w world \<Rightarrow> (py_error + str) \<times> 'w world" where
  "extract_csv_from_github env owner repo file_path token s =
     (let url = build_url owner repo file_path;
          headers = create_headers token;
          s1 = print ([0x1F4E5] @ ascii '' Extracting data from: '' @ owner @ ascii ''/'' @ repo
                       @ ascii ''/'' @ file_path) s
      in case requests_get env url headers s1 of
           (Inl e, s2) \<Rightarrow> (Inl e, s2)
         | (Inr response, s2) \<Rightarrow>
             if status_code response = 200 then
               (case body_json response of
                  Inl e \<Rightarrow> (Inl e, s2)
                | Inr file_data \<Rightarrow>
                    (case getitem file_data (ascii ''content'') of
                       Inl e \<Rightarrow> (Inl e, s2)
                     | Inr content \<Rightarrow>
                         (case decode_content content of
                            Inl e \<Rightarrow> (Inl e, s2)
                          | Inr csv_content \<Rightarrow>
                              (Inr csv_content,
                               print ([0x2705] @ ascii '' Extraction successful!'') s2))))
             else
               (Inl (Exception ([0x274C] @ ascii '' Failed to extract: ''
                        @ str_int (status_code response) @ ascii '' - '' @ body_text response)),
                s2))"

definition transform_csv_to_json :: "str \<Rightarrow> 'w world \<Rightarrow> (py_error + str) \<times> 'w world" where
  "transform_csv_to_json csv_content s =
     (let s1 = print ([0x1F504] @ ascii '' Transforming CSV to JSON...'') s
      in case parse_csv csv_content of
           Inl e \<Rightarrow> (Inl e, s1)
         | Inr data \<Rightarrow>
             (let json_content = to_json data
              in (Inr json_content,
                  print ([0x2705] @ ascii '' Transformation complete! Converted ''
                         @ str_nat (length data) @ ascii '' rows'') s1)))"

definition load_json_to_github ::
  "'w env \<Rightarrow> str \<Rightarrow> str \<Rightarrow> str \<Rightarrow> str \<Rightarrow> str \<Rightarrow> str \<Rightarrow> 'w world
     \<Rightarrow> (py_error + jval) \<times> 'w world" where
  "load_json_to_github env owner repo file_path json_content token commit_message s =
     (let s1 = print ([0x1F4E4] @ ascii '' Loading data to: '' @ owner @ ascii ''/'' @ repo
                       @ ascii ''/'' @ file_path) s;
          url = build_url owner repo file_path;
          headers = create_headers token
      in case requests_get env url headers s1 of
           (Inl e, s2) \<Rightarrow> (Inl e, s2)
         | (Inr check_response, s2) \<Rightarrow>
             (case encode_content json_content of
                Inl e \<Rightarrow> (Inl e, s2)
              | Inr encoded \<Rightarrow>
                  (let payload = [(ascii ''message'', JStr commit_message),
                                  (ascii ''content'', JStr encoded),
                                  (ascii ''branch'', JStr (ascii ''main''))];
                       checked =
                         (if status_code check_response = 200 then
                            (case body_json check_response of
                               Inl e \<Rightarrow> Inl e
                             | Inr j \<Rightarrow>
                                 (case getitem j (ascii ''sha'') of
                                    Inl e \<Rightarrow> Inl e
                                  | Inr sha \<Rightarrow>
                                      Inr (dict_set payload (ascii ''sha'') sha,
                                           print ([0x1F4DD] @ ascii '' File exists, updating...'') s2)))
                          else Inr (payload, print ([0x1F4DD] @ ascii '' Creating new file...'') s2))
                   in case checked of
                        Inl e \<Rightarrow> (Inl e, s2)
                      | Inr (payload', s3) \<Rightarrow>
                          (case requests_put env url headers payload' s3 of
                             (Inl e, s4) \<Rightarrow> (Inl e, s4)
                           | (Inr response, s4) \<Rightarrow>
                               if status_code response = 200 \<or> status_code response = 201 then
                                 (let s5 = print ([0x2705] @ ascii '' Load successful!'') s4
                                  in case body_json response of
                                       Inl e \<Rightarrow> (Inl e, s5)
                                     | Inr j \<Rightarrow> (Inr j, s5))
                               else
                                 (Inl (Exception ([0x274C] @ ascii '' Failed to load: ''
                                         @ str_int (status_code response) @ ascii '' - ''
                                         @ body_text response)),
                                  s4)))))"

definition banner :: str where
  "banner = replicate 60 61"

definition etl_try :: "'w env \<Rightarrow> 'w world \<Rightarrow> (py_error + unit) \<times> 'w world" where
  "etl_try env s =
     (case extract_csv_from_github env SOURCE_OWNER SOURCE_REPO SOURCE_FILE_PATH GITHUB_TOKEN s of
        (Inl e, s1) \<Rightarrow> (Inl e, s1)
      | (Inr csv_data, s1) \<Rightarrow>
          (case transform_csv_to_json csv_data (print [] s1) of
             (Inl e, s2) \<Rightarrow> (Inl e, s2)
           | (Inr json_data, s2) \<Rightarrow>
               (case load_json_to_github env DEST_OWNER DEST_REPO DEST_FILE_PATH json_data
                       GITHUB_TOKEN (ascii ''ETL Pipeline: Automated CSV to JSON conversion'')
                       (print [] s2) of
                  (Inl e, s3) \<Rightarrow> (Inl e, s3)
                | (Inr result, s3) \<Rightarrow>
                    (let s4 = print banner
                                (print ([0x1F389] @ ascii '' ETL Pipeline completed successfully!'')
                                   (print ([10] @ banner) s3))
                     in case getitem result (ascii ''content'') of
                          Inl e \<Rightarrow> (Inl e, s4)
                        | Inr c \<Rightarrow>
                            (case getitem c (ascii ''html_url'') of
                               Inl e \<Rightarrow> (Inl e, s4)
                             | Inr u \<Rightarrow>
                                 (Inr (),
                                  print ([10, 0x1F4CA] @ ascii '' File uploaded to: ''
                                         @ format_value env u) s4))))))"

definition print_start :: "'w world \<Rightarrow> 'w world" where
  "print_start s =
     print (banner @ [10])
       (print ([0x1F680] @ ascii '' Starting ETL Pipeline: GitHub CSV '' @ [0x2192]
               @ ascii '' JSON Transfer'')
          (print ([10] @ banner) s))"

definition report_failure :: "'w env \<Rightarrow> py_error \<Rightarrow> 'w world \<Rightarrow> 'w world" where
  "report_failure env e s =
     print banner
       (print ([0x1F4A5] @ ascii '' ETL Pipeline failed: '' @ str_of_exception env e)
          (print ([10] @ banner) s))"

definition run_etl_pipeline :: "'w env \<Rightarrow> 'w world \<Rightarrow> (py_error + unit) \<times> 'w world" where
  "run_etl_pipeline env s =
     (case etl_try env (print_start s) of
        (Inl e, s1) \<Rightarrow> (Inr (), report_failure env e s1)
      | (Inr u, s1) \<Rightarrow> (Inr (), s1))"

section \<open>Predicates of the statements\<close>

definition line_break :: "nat \<Rightarrow> bool" where
  "line_break c = (c = 10 \<or> c = 13)"

definition base64_char :: "nat \<Rightarrow> bool" where
  "base64_char c = (c = BASE64_PAD \<or> a2b_table c \<noteq> None)"

text \<open>
  A server that answers every read with one response and every write with another, and
  a world in which nothing has happened yet, for the concrete runs below.
\<close>

definition server :: "response \<Rightarrow> response \<Rightarrow> unit env" where
  "server get_response put_response =
     \<lparr>serve = (\<lambda>w req. case req of GET url hdrs \<Rightarrow> (Inr get_response, w)
                               | PUT url hdrs payload \<Rightarrow> (Inr put_response, w)),
      str_exception = (\<lambda>e. ascii ''error''),
      str_value = (\<lambda>v. ascii ''value'')\<rparr>"

definition empty_world :: "unit world" where
  "empty_world = \<lparr>remote = (), sent = [], stdout = []\<rparr>"

declare str_nat.simps [simp del]

text \<open>
  The extract stage as the orchestrator calls it, its request and the line it prints.
\<close>

definition extracting_line :: str where
  "extracting_line = [0x1F4E5] @ ascii '' Extracting data from: '' @ SOURCE_OWNER @ ascii ''/''
     @ SOURCE_REPO @ ascii ''/'' @ SOURCE_FILE_PATH"

definition source_request :: request where
  "source_request =
     GET (build_url SOURCE_OWNER SOURCE_REPO SOURCE_FILE_PATH) (create_headers GITHUB_TOKEN)"

definition extract_source :: "'w env \<Rightarrow> 'w world \<Rightarrow> (py_error + str) \<times> 'w world" where
  "extract_source env s =
     extract_csv_from_github env SOURCE_OWNER SOURCE_REPO SOURCE_FILE_PATH GITHUB_TOKEN s"

definition response_404 :: response where
  "response_404 =
     \<lparr>status_code = 404, body_text = ascii ''Not Found'', body_json = Inl JSONDecodeError\<rparr>"

definition response_201 :: response where
  "response_201 = \<lparr>status_code = 201, body_text = [], body_json = Inr JNull\<rparr>"

definition response_content :: "str \<Rightarrow> response" where
  "response_content payload =
     \<lparr>status_code = 200, body_text = [],
      body_json = Inr (JObj [(ascii ''content'', JStr payload)])\<rparr>"

subsection \<open>Tabular text\<close>

text \<open>
  A table is a list of rows, a row a list of fields, a field its value together with the
  way it is written: quoted (between quote characters, every quote character of the value
  doubled; the value may hold delimiters, quote characters and line breaks) or unquoted
  (the value as it is, which then holds no delimiter and no line break and does not begin
  with a quote character). No value is longer than the field size limit of the reader.
  The fields of a row are separated by the delimiter, the rows are ended by a line feed
  or by a carriage return and a line feed, and the last row may lack its line end. A row
  that consists of one unquoted empty field is written as an empty line.
\<close>

type_synonym csv_field = "bool \<times> str"

definition unquoted_field :: "str \<Rightarrow> bool" where
  "unquoted_field f =
     (length f \<le> field_limit
      \<and> (\<forall>c \<in> set f. c \<noteq> delimiter \<and> c \<noteq> 10 \<and> c \<noteq> 13)
      \<and> (case f of [] \<Rightarrow> True | c # cs \<Rightarrow> c \<noteq> quotechar))"

definition valid_field :: "csv_field \<Rightarrow> bool" where
  "valid_field x = (case x of (quoted, f) \<Rightarrow>
     if quoted then length f \<le> field_limit else unquoted_field f)"

definition valid_row :: "csv_field list \<Rightarrow> bool" where
  "valid_row r = (r \<noteq> [] \<and> (\<forall>x \<in> set r. valid_field x))"

definition blank_row :: "csv_field list \<Rightarrow> bool" where
  "blank_row r = (r = [(False, [])])"

definition line_end :: "str \<Rightarrow> bool" where
  "line_end eol = (eol = [10] \<or> eol = [13, 10])"

definition double_quotes :: "str \<Rightarrow> str" where
  "double_quotes f = concat (map (\<lambda>c. if c = quotechar then [quotechar, quotechar] else [c]) f)"

definition render_field :: "csv_field \<Rightarrow> str" where
  "render_field x = (case x of (quoted, f) \<Rightarrow>
     if quoted then [quotechar] @ double_quotes f @ [quotechar] else f)"

definition render_row :: "csv_field list \<Rightarrow> str" where
  "render_row r = join [delimiter] (map render_field r)"

fun render_table :: "str \<Rightarrow> bool \<Rightarrow> csv_field list list \<Rightarrow> str" where
  "render_table eol final [] = []"
| "render_table eol final [r] = render_row r @ (if final then eol else [])"
| "render_table eol final (r # r' # rs) = render_row r @ eol @ render_table eol final (r' # rs)"

definition row_values :: "csv_field list \<Rightarrow> str list" where
  "row_values r = map snd r"

text \<open>
  The reader on the characters of a text instead of its lines: \<open>stream self mid cs\<close> is
  the sequence of records when the reader is in the state \<open>self\<close> and the characters \<open>cs\<close>
  remain, \<open>mid\<close> telling whether the current line has begun. It is \<open>Reader_rows\<close> on the
  lines of the text (lemma \<open>stream_lines\<close>). The other definitions name states of the
  reader: at the start of a field, at the end of a field, and the state once the field is
  saved.
\<close>

definition emit_row :: "str list \<Rightarrow> py_error + str list list \<Rightarrow> py_error + str list list" where
  "emit_row row r = (case r of Inl e \<Rightarrow> Inl e | Inr rows \<Rightarrow> Inr (row # rows))"

fun stream :: "ReaderObj \<Rightarrow> bool \<Rightarrow> str \<Rightarrow> py_error + str list list" where
  "stream self mid [] = (if mid then Reader_rows self [[]] else Reader_rows self [])"
| "stream self mid (c # cs) =
     (case parse_process_char self (Some c) of
        Inl e \<Rightarrow> Inl e
      | Inr self' \<Rightarrow>
          if c = 10 then
            (case parse_process_char self' None of
               Inl e \<Rightarrow> Inl e
             | Inr self'' \<Rightarrow>
                 if state self'' \<noteq> START_RECORD then stream self'' False cs
                 else emit_row (fields_lst self'') (stream parse_reset False cs))
          else stream self' True cs)"

definition at_start :: "ReaderObj \<Rightarrow> bool" where
  "at_start r = (field r = [] \<and> (state r = START_FIELD \<or> state r = START_RECORD))"

definition mid_after :: "bool \<Rightarrow> str \<Rightarrow> bool" where
  "mid_after mid f = (if f = [] then mid else last f \<noteq> 10)"

definition closing :: "ReaderObj \<Rightarrow> bool" where
  "closing r = (state r = IN_FIELD \<or> state r = QUOTE_IN_QUOTED_FIELD
                \<or> (state r = START_FIELD \<and> field r = []))"

definition saved :: "ReaderObj \<Rightarrow> ParserState \<Rightarrow> ReaderObj" where
  "saved r s = \<lparr>fields_lst = fields_lst r @ [field r], field = [], state = s\<rparr>"

definition reader_row :: "csv_field list \<Rightarrow> str list" where
  "reader_row row = (if blank_row row then [] else row_values row)"

section \<open>Verified properties\<close>

subsection \<open>UTF-8 and Base64 round trips\<close>

lemma dec2:
  assumes "2 \<le> a" "a < 32" "b < 64"
  shows "utf8_decode ((0xC0 + a) # (0x80 + b) # rest) = emit (a * 64 + b) (utf8_decode rest)"
  using assms by (simp add: cont_def)

lemma dec3:
  assumes "a < 16" "b < 64" "d < 64" "a = 0 \<longrightarrow> 32 \<le> b" "a = 13 \<longrightarrow> b < 32"
  shows "utf8_decode ((0xE0 + a) # (0x80 + b) # (0x80 + d) # rest)
         = emit (a * 4096 + b * 64 + d) (utf8_decode rest)"
  using assms by (auto simp: cont_def)

lemma dec4:
  assumes "a < 5" "b < 64" "d < 64" "e < 64" "a = 0 \<longrightarrow> 16 \<le> b" "a = 4 \<longrightarrow> b < 16"
  shows "utf8_decode ((0xF0 + a) # (0x80 + b) # (0x80 + d) # (0x80 + e) # rest)
         = emit (a * 262144 + b * 4096 + d * 64 + e) (utf8_decode rest)"
  using assms by (auto simp: cont_def)

lemma split64:
  fixes c :: nat
  obtains q1 q2 q3 d b a where
    "c div 64 = q1" "c mod 64 = d" "c = 64 * q1 + d" "d < 64"
    "c div 4096 = q2" "q1 mod 64 = b" "q1 = 64 * q2 + b" "b < 64"
    "c div 262144 = q3" "q2 mod 64 = a" "q2 = 64 * q3 + a" "a < 64"
proof -
  have 1: "c div 4096 = c div 64 div 64" "c div 262144 = c div 64 div 64 div 64"
    by (simp_all add: div_mult2_eq)
  show ?thesis
    by (rule that [of "c div 64" "c mod 64" "c div 64 div 64" "c div 64 mod 64"
          "c div 64 div 64 div 64" "c div 64 div 64 mod 64"]) (simp_all add: 1)
qed

lemma utf8_decode_encode_char:
  assumes c: "c < 0x110000" and enc: "utf8_encode_char c = Inr bs"
  shows "utf8_decode (bs @ rest) = emit c (utf8_decode rest)"
proof -
  obtain q1 q2 q3 d b a where f:
    "c div 64 = q1" "c mod 64 = d" "c = 64 * q1 + d" "d < 64"
    "c div 4096 = q2" "q1 mod 64 = b" "q1 = 64 * q2 + b" "b < 64"
    "c div 262144 = q3" "q2 mod 64 = a" "q2 = 64 * q3 + a" "a < 64"
    by (rule split64)
  consider "c < 0x80" | "0x80 \<le> c" "c < 0x800"
    | "0x800 \<le> c" "c < 0x10000" | "0x10000 \<le> c"
    by linarith
  then show ?thesis
  proof cases
    case 1
    then show ?thesis using enc by (auto simp: utf8_encode_char_def)
  next
    case 2
    then have bs: "bs = [0xC0 + q1, 0x80 + d]"
      using enc by (auto simp: utf8_encode_char_def f(1,2))
    have "2 \<le> q1" "q1 < 32" using 2 f(3,4) by linarith+
    from dec2 [OF this f(4), of rest] have
      "utf8_decode (bs @ rest) = emit (q1 * 64 + d) (utf8_decode rest)"
      by (simp add: bs)
    moreover have "q1 * 64 + d = c" using f(3) by simp
    ultimately show ?thesis by simp
  next
    case 3
    then have ns: "\<not> (0xD800 \<le> c \<and> c \<le> 0xDFFF)"
      using enc by (auto simp: utf8_encode_char_def is_surrogate_def split: if_splits)
    have bs: "bs = [0xE0 + q2, 0x80 + b, 0x80 + d]"
      using 3 enc by (auto simp: utf8_encode_char_def f(1,2,5,6) split: if_splits)
    have "q2 < 16" using 3 f(3,4,7,8) by linarith
    moreover have "q2 = 0 \<longrightarrow> 32 \<le> b" using 3 f(3,4,7,8) by linarith
    moreover have "q2 = 13 \<longrightarrow> b < 32" using ns f(3,4,7,8) by linarith
    ultimately have
      "utf8_decode (bs @ rest) = emit (q2 * 4096 + b * 64 + d) (utf8_decode rest)"
      using dec3 [of q2 b d rest] f(4,8) by (simp add: bs)
    moreover have "q2 * 4096 + b * 64 + d = c" using f(3,7) by simp
    ultimately show ?thesis by simp
  next
    case 4
    then have bs: "bs = [0xF0 + q3, 0x80 + a, 0x80 + b, 0x80 + d]"
      using enc by (auto simp: utf8_encode_char_def is_surrogate_def f(1,2,5,6,9,10))
    have "q3 < 5" using c f(3,4,7,8,11,12) by linarith
    moreover have "q3 = 0 \<longrightarrow> 16 \<le> a" using 4 f(3,4,7,8,11,12) by linarith
    moreover have "q3 = 4 \<longrightarrow> a < 16" using c f(3,4,7,8,11,12) by linarith
    ultimately have
      "utf8_decode (bs @ rest)
        = emit (q3 * 262144 + a * 4096 + b * 64 + d) (utf8_decode rest)"
      using dec4 [of q3 a b d rest] f(4,8,12) by (simp add: bs)
    moreover have "q3 * 262144 + a * 4096 + b * 64 + d = c" using f(3,7,11) by simp
    ultimately show ?thesis by simp
  qed
qed

lemma utf8_decode_encode:
  "is_str s \<Longrightarrow> utf8_encode s = Inr bs \<Longrightarrow> utf8_decode bs = Inr s"
proof (induction s arbitrary: bs)
  case Nil
  then show ?case by simp
next
  case (Cons c cs)
  then obtain b r where b: "utf8_encode_char c = Inr b" and r: "utf8_encode cs = Inr r"
    and bs: "bs = b @ r"
    by (auto split: sum.splits)
  have "c < 0x110000" "is_str cs" using Cons.prems(1) by (auto simp: is_str_def)
  then show ?case using Cons.IH [OF _ r] utf8_decode_encode_char [OF _ b, of r]
    by (simp add: bs emit_def)
qed

lemma utf8_encode_ok:
  "(\<exists>bs. utf8_encode s = Inr bs) \<longleftrightarrow> (\<forall>c \<in> set s. \<not> is_surrogate c)"
  by (induction s) (auto simp: utf8_encode_char_def is_surrogate_def split: sum.splits)


lemma a2b_b2a_table: "n < 64 \<Longrightarrow> a2b_table (b2a_table n) = Some n"
  by (auto simp: a2b_table_def b2a_table_def)

lemma b2a_table_not_pad: "b2a_table n \<noteq> BASE64_PAD"
  by (auto simp: b2a_table_def BASE64_PAD_def)

lemma b2a_table_ascii: "b2a_table n < 128"
  by (auto simp: b2a_table_def)

lemma a2b_sextet:
  "n < 64 \<Longrightarrow> a2b_base64 q l p out (b2a_table n # rest) =
     (if q = 0 then a2b_base64 1 n 0 out rest
      else if q = 1 then a2b_base64 2 (n mod 16) 0 (out @ [l * 4 + n div 16]) rest
      else if q = 2 then a2b_base64 3 (n mod 4) 0 (out @ [l * 16 + n div 4]) rest
      else a2b_base64 0 0 0 (out @ [l * 64 + n]) rest)"
  by (simp add: a2b_b2a_table b2a_table_not_pad)

declare a2b_base64.simps(2) [simp del]

lemma a2b_quad_sextets:
  assumes "s0 < 64" "s1 < 64" "s2 < 64" "s3 < 64"
  shows "a2b_base64 0 l p out (b2a_table s0 # b2a_table s1 # b2a_table s2 # b2a_table s3 # rest)
         = a2b_base64 0 0 0
             (out @ [s0 * 4 + s1 div 16, (s1 mod 16) * 16 + s2 div 4, (s2 mod 4) * 64 + s3]) rest"
  using assms by (simp add: a2b_sextet)

lemma a2b_pair_sextets:
  assumes "s0 < 64" "s1 < 64" "s2 < 64"
  shows "a2b_base64 0 l p out [b2a_table s0, b2a_table s1, b2a_table s2, BASE64_PAD]
         = Inr (out @ [s0 * 4 + s1 div 16, (s1 mod 16) * 16 + s2 div 4])"
  using assms by (simp add: a2b_sextet) (simp add: a2b_base64.simps(2))

lemma a2b_single_sextets:
  assumes "s0 < 64" "s1 < 64"
  shows "a2b_base64 0 l p out [b2a_table s0, b2a_table s1, BASE64_PAD, BASE64_PAD]
         = Inr (out @ [s0 * 4 + s1 div 16])"
  using assms by (simp add: a2b_sextet) (simp add: a2b_base64.simps(2))

lemma a2b_quad:
  assumes "a < 256" "b < 256" "c < 256"
  shows "a2b_base64 0 l p out
           (b2a_table (a div 4) # b2a_table ((a mod 4) * 16 + b div 16) #
            b2a_table ((b mod 16) * 4 + c div 64) # b2a_table (c mod 64) # rest)
         = a2b_base64 0 0 0 (out @ [a, b, c]) rest"
proof -
  have 1: "b div 16 < 16" "c div 64 < 4" "a mod 4 < 4" "b mod 16 < 16"
    using assms by simp_all
  have 2: "a div 4 < 64" "(a mod 4) * 16 + b div 16 < 64" "(b mod 16) * 4 + c div 64 < 64"
    "c mod 64 < 64"
    using assms 1 by linarith+
  have 3: "((a mod 4) * 16 + b div 16) div 16 = a mod 4"
    "((a mod 4) * 16 + b div 16) mod 16 = b div 16"
    "((b mod 16) * 4 + c div 64) div 4 = b mod 16"
    "((b mod 16) * 4 + c div 64) mod 4 = c div 64"
    using 1 by simp_all
  have 4: "a div 4 * 4 + a mod 4 = a" "b div 16 * 16 + b mod 16 = b" "c div 64 * 64 + c mod 64 = c"
    by simp_all
  show ?thesis
    by (simp only: a2b_quad_sextets [OF 2] 3 4)
qed

lemma a2b_pair:
  assumes "a < 256" "b < 256"
  shows "a2b_base64 0 l p out
           [b2a_table (a div 4), b2a_table ((a mod 4) * 16 + b div 16),
            b2a_table ((b mod 16) * 4), BASE64_PAD]
         = Inr (out @ [a, b])"
proof -
  have 1: "b div 16 < 16" "a mod 4 < 4" "b mod 16 < 16"
    using assms by simp_all
  have 2: "a div 4 < 64" "(a mod 4) * 16 + b div 16 < 64" "(b mod 16) * 4 < 64"
    using assms 1 by linarith+
  have 3: "((a mod 4) * 16 + b div 16) div 16 = a mod 4"
    "((a mod 4) * 16 + b div 16) mod 16 = b div 16"
    "((b mod 16) * 4) div 4 = b mod 16"
    using 1 by simp_all
  have 4: "a div 4 * 4 + a mod 4 = a" "b div 16 * 16 + b mod 16 = b"
    by simp_all
  show ?thesis
    by (simp only: a2b_pair_sextets [OF 2] 3 4)
qed

lemma a2b_single:
  assumes "a < 256"
  shows "a2b_base64 0 l p out
           [b2a_table (a div 4), b2a_table ((a mod 4) * 16), BASE64_PAD, BASE64_PAD]
         = Inr (out @ [a])"
proof -
  have 2: "a div 4 < 64" "(a mod 4) * 16 < 64"
    using assms by simp_all
  have 3: "((a mod 4) * 16) div 16 = a mod 4"
    by simp
  have 4: "a div 4 * 4 + a mod 4 = a"
    by simp
  show ?thesis
    by (simp only: a2b_single_sextets [OF 2] 3 4)
qed

lemma a2b_b2a_base64:
  "is_bytes bs \<Longrightarrow> a2b_base64 0 l p out (b2a_base64 bs) = Inr (out @ bs)"
proof (induction bs arbitrary: l p out rule: b2a_base64.induct)
  case (1 a b c rest)
  then have "a < 256" "b < 256" "c < 256" "is_bytes rest"
    by (simp_all add: is_bytes_def)
  then show ?case using "1.IH" [of 0 0 "out @ [a, b, c]"]
    by (simp add: a2b_quad)
next
  case (2 a b)
  then show ?case by (simp add: is_bytes_def a2b_pair)
next
  case (3 a)
  then show ?case by (simp add: is_bytes_def a2b_single)
next
  case 4
  then show ?case by simp
qed

lemma b2a_base64_ascii: "\<forall>c \<in> set (b2a_base64 bs). c < 128"
  by (induction bs rule: b2a_base64.induct) (simp_all add: b2a_table_ascii BASE64_PAD_def)

lemma utf8_decode_ascii: "\<forall>c \<in> set bs. c < 128 \<Longrightarrow> utf8_decode bs = Inr bs"
  by (induction bs) (simp_all add: emit_def)

lemma utf8_encode_char_bytes:
  assumes c: "c < 0x110000" and enc: "utf8_encode_char c = Inr bs"
  shows "is_bytes bs"
proof -
  obtain q1 q2 q3 d b a where f:
    "c div 64 = q1" "c mod 64 = d" "c = 64 * q1 + d" "d < 64"
    "c div 4096 = q2" "q1 mod 64 = b" "q1 = 64 * q2 + b" "b < 64"
    "c div 262144 = q3" "q2 mod 64 = a" "q2 = 64 * q3 + a" "a < 64"
    by (rule split64)
  consider "c < 0x80" | "0x80 \<le> c" "c < 0x800"
    | "0x800 \<le> c" "c < 0x10000" | "0x10000 \<le> c"
    by linarith
  then show ?thesis
  proof cases
    case 1
    then show ?thesis using enc by (auto simp: utf8_encode_char_def is_bytes_def)
  next
    case 2
    then have bs: "bs = [0xC0 + q1, 0x80 + d]"
      using enc by (auto simp: utf8_encode_char_def f(1,2))
    have "q1 < 32" using 2 f(3,4) by linarith
    then show ?thesis using f(4) by (simp add: bs is_bytes_def)
  next
    case 3
    have bs: "bs = [0xE0 + q2, 0x80 + b, 0x80 + d]"
      using 3 enc by (auto simp: utf8_encode_char_def f(1,2,5,6) split: if_splits)
    have "q2 < 16" using 3 f(3,4,7,8) by linarith
    then show ?thesis using f(4,8) by (simp add: bs is_bytes_def)
  next
    case 4
    then have bs: "bs = [0xF0 + q3, 0x80 + a, 0x80 + b, 0x80 + d]"
      using enc by (auto simp: utf8_encode_char_def is_surrogate_def f(1,2,5,6,9,10))
    have "q3 < 5" using c f(3,4,7,8,11,12) by linarith
    then show ?thesis using f(4,8,12) by (simp add: bs is_bytes_def)
  qed
qed

lemma utf8_encode_bytes:
  "is_str s \<Longrightarrow> utf8_encode s = Inr bs \<Longrightarrow> is_bytes bs"
proof (induction s arbitrary: bs)
  case Nil
  then show ?case by (simp add: is_bytes_def)
next
  case (Cons c cs)
  then obtain b r where b: "utf8_encode_char c = Inr b" and r: "utf8_encode cs = Inr r"
    and bs: "bs = b @ r"
    by (auto split: sum.splits)
  have "c < 0x110000" "is_str cs" using Cons.prems(1) by (auto simp: is_str_def)
  then show ?case using Cons.IH [OF _ r] utf8_encode_char_bytes [OF _ b]
    by (auto simp: bs is_bytes_def)
qed

lemma b64decode_b64encode:
  "is_bytes bs \<Longrightarrow> b64decode (JStr (b64encode bs)) = Inr bs"
  using b2a_base64_ascii [of bs]
  by (simp add: b64decode_def b64encode_def encode_ascii_def a2b_b2a_base64)


lemma decode_content_hello:
  "decode_content (JStr (ascii ''aGVsbG8='')) = Inr (ascii ''hello'')"
  by (simp add: decode_content_def b64decode_def encode_ascii_def ascii_def a2b_table_def
      BASE64_PAD_def emit_def a2b_base64.simps(2))

subsection \<open>C10: decoding inverts encoding\<close>

text \<open>
  C10, as stated for every string, fails: a Python string may hold a surrogate code
  point, and \<open>encode_content\<close> raises \<open>UnicodeEncodeError\<close> on it, so there is nothing
  to decode.
\<close>

theorem encode_content_surrogate_counterexample:
  "is_str [0xD800] \<and> encode_content [0xD800] = Inl UnicodeEncodeError"
  by (simp add: is_str_def encode_content_def utf8_encode_char_def is_surrogate_def)

text \<open>
  C10 (amended): for every string \<open>s\<close> without surrogate code points,
  \<open>encode_content s\<close> returns a string \<open>t\<close>, and \<open>decode_content t\<close> returns \<open>s\<close>.
\<close>

theorem decode_encode_content:
  assumes "is_str s" "\<forall>c \<in> set s. \<not> is_surrogate c"
  shows "\<exists>t. encode_content s = Inr t \<and> decode_content (JStr t) = Inr s"
proof -
  obtain bs where bs: "utf8_encode s = Inr bs"
    using assms(2) utf8_encode_ok [of s] by blast
  have t: "encode_content s = Inr (b64encode bs)"
    using b2a_base64_ascii [of bs]
    by (simp add: encode_content_def bs b64encode_def utf8_decode_ascii)
  have "is_bytes bs" using assms(1) bs by (rule utf8_encode_bytes)
  then have "decode_content (JStr (b64encode bs)) = Inr s"
    using utf8_decode_encode [OF assms(1) bs]
    by (simp add: decode_content_def b64decode_b64encode)
  with t show ?thesis by blast
qed

theorem decode_encode_content_witness:
  "\<exists>t. encode_content [0x68, 0xE9, 0x20AC, 0x1F680] = Inr t
     \<and> decode_content (JStr t) = Inr [0x68, 0xE9, 0x20AC, 0x1F680]"
  using decode_encode_content [of "[0x68, 0xE9, 0x20AC, 0x1F680]"]
  by (simp add: is_str_def is_surrogate_def)

subsection \<open>C8: the stock example through parse and serialise\<close>

lemmas csv_defs = parse_process_char_def start_field_def parse_save_field_def parse_add_char_def
  set_state_def parse_reset_def field_limit_def delimiter_def quotechar_def

lemma stocks_lines:
  "StringIO_lines (ascii ''ticker,price\<newline>AAA,10\<newline>BBB,20\<newline>'')
   = [ascii ''ticker,price\<newline>'', ascii ''AAA,10\<newline>'', ascii ''BBB,20\<newline>'']"
  by (simp add: ascii_def)

lemma stocks_rows:
  "csv_reader [ascii ''ticker,price\<newline>'', ascii ''AAA,10\<newline>'', ascii ''BBB,20\<newline>'']
   = Inr [[ascii ''ticker'', ascii ''price''], [ascii ''AAA'', ascii ''10''],
          [ascii ''BBB'', ascii ''20'']]"
  by (simp add: ascii_def csv_reader_def csv_defs)

lemma stocks_records:
  "parse_csv (ascii ''ticker,price\<newline>AAA,10\<newline>BBB,20\<newline>'')
   = Inr [[(Some (ascii ''ticker''), Text (ascii ''AAA'')),
           (Some (ascii ''price''), Text (ascii ''10''))],
          [(Some (ascii ''ticker''), Text (ascii ''BBB'')),
           (Some (ascii ''price''), Text (ascii ''20''))]]"
  unfolding parse_csv_def stocks_lines DictReader_def stocks_rows
  by (simp add: DictReader_row_def dict_zip_def ascii_def)

lemma stocks_json:
  \<open>to_json [[(Some (ascii ''ticker''), Text (ascii ''AAA'')),
             (Some (ascii ''price''), Text (ascii ''10''))],
            [(Some (ascii ''ticker''), Text (ascii ''BBB'')),
             (Some (ascii ''price''), Text (ascii ''20''))]]
   = ascii ''[\<newline>  {\<newline>    "ticker": "AAA",\<newline>    "price": "10"\<newline>  },\<newline>  {\<newline>    "ticker": "BBB",\<newline>    "price": "20"\<newline>  }\<newline>]''\<close>
  by (simp add: to_json_def iterencode_list_def iterencode_dict_def encode_key_def
      encode_cell_def encode_basestring_ascii_def escape_char_def newline_indent_def ascii_def
      eval_nat_numeral)

text \<open>
  C8: the source text \<open>ticker,price\nAAA,10\nBBB,20\n\<close> parses to two records, the first
  with ticker \<open>AAA\<close> and price \<open>10\<close>, the second with ticker \<open>BBB\<close> and price \<open>20\<close>, and
  the transform stage returns the document with exactly these two entries in this order.
\<close>

theorem transform_stocks_example:
  \<open>parse_csv (ascii ''ticker,price\<newline>AAA,10\<newline>BBB,20\<newline>'')
     = Inr [[(Some (ascii ''ticker''), Text (ascii ''AAA'')),
             (Some (ascii ''price''), Text (ascii ''10''))],
            [(Some (ascii ''ticker''), Text (ascii ''BBB'')),
             (Some (ascii ''price''), Text (ascii ''20''))]]
   \<and> fst (transform_csv_to_json (ascii ''ticker,price\<newline>AAA,10\<newline>BBB,20\<newline>'') s)
     = Inr (ascii ''[\<newline>  {\<newline>    "ticker": "AAA",\<newline>    "price": "10"\<newline>  },\<newline>  {\<newline>    "ticker": "BBB",\<newline>    "price": "20"\<newline>  }\<newline>]'')\<close>
  by (simp add: transform_csv_to_json_def stocks_records Let_def stocks_json)

subsection \<open>C5: empty input and input without a header row\<close>

lemma parse_line_breaks:
  "\<forall>c \<in> set line. line_break c \<Longrightarrow> state r = EAT_CRNL \<Longrightarrow>
     parse_line r line = Inr (r\<lparr>state := START_RECORD\<rparr>)"
  by (induction line arbitrary: r) (auto simp: parse_process_char_def line_break_def)

lemma parse_line_blank:
  "\<forall>c \<in> set line. line_break c \<Longrightarrow> line \<noteq> [] \<Longrightarrow> parse_line parse_reset line = Inr parse_reset"
  by (cases line) (auto simp: parse_process_char_def line_break_def parse_reset_def parse_line_breaks)

lemma StringIO_lines_nonempty: "[] \<notin> set (StringIO_lines csv_text)"
  by (induction csv_text) (auto split: list.splits)

lemma concat_StringIO_lines: "concat (StringIO_lines csv_text) = csv_text"
  by (induction csv_text) (auto split: list.splits)

lemma StringIO_lines_chars:
  assumes "l \<in> set (StringIO_lines csv_text)"
  shows "set l \<subseteq> set csv_text"
proof -
  have "set l \<subseteq> set (concat (StringIO_lines csv_text))" using assms by auto
  then show ?thesis by (simp only: concat_StringIO_lines)
qed

lemma Reader_rows_blank:
  "\<forall>l \<in> set lines. l \<noteq> [] \<and> (\<forall>c \<in> set l. line_break c) \<Longrightarrow>
     Reader_rows parse_reset lines = Inr (replicate (length lines) [])"
proof (induction lines)
  case Nil
  then show ?case by (simp add: parse_reset_def)
next
  case (Cons l lines)
  then have "parse_line parse_reset l = Inr parse_reset"
    by (simp add: parse_line_blank)
  moreover have "state parse_reset = START_RECORD" "fields_lst parse_reset = []"
    by (simp_all add: parse_reset_def)
  ultimately show ?case using Cons by simp
qed

lemma parse_csv_blank:
  assumes "\<forall>c \<in> set csv_text. line_break c"
  shows "parse_csv csv_text = Inr []"
proof -
  have "\<forall>l \<in> set (StringIO_lines csv_text). l \<noteq> [] \<and> (\<forall>c \<in> set l. line_break c)"
    using assms StringIO_lines_nonempty [of csv_text] StringIO_lines_chars [of _ csv_text] by blast
  then have "csv_reader (StringIO_lines csv_text) = Inr (replicate (length (StringIO_lines csv_text)) [])"
    unfolding csv_reader_def by (rule Reader_rows_blank)
  then show ?thesis
    by (cases "StringIO_lines csv_text") (simp_all add: parse_csv_def DictReader_def)
qed


text \<open>
  C5, as stated, fails: on the empty text \<open>parse_csv\<close> returns the empty list of records
  and the transform stage returns the document \<open>[]\<close>; nothing is raised.
\<close>

theorem transform_empty_counterexample:
  "parse_csv [] = Inr []
   \<and> fst (transform_csv_to_json [] \<lparr>remote = (), sent = [], stdout = []\<rparr>) = Inr (ascii ''[]'')"
  by (simp add: transform_csv_to_json_def parse_csv_def DictReader_def csv_reader_def
      parse_reset_def Let_def to_json_def iterencode_list_def)

text \<open>
  C5 (amended): for the empty text, and for every text that consists of line breaks only
  (so that there is no header row), the transform stage returns the document \<open>[]\<close> and
  raises nothing.
\<close>

theorem transform_blank_input:
  assumes "\<forall>c \<in> set csv_text. line_break c"
  shows "parse_csv csv_text = Inr []
    \<and> fst (transform_csv_to_json csv_text s) = Inr (ascii ''[]'')"
  by (simp add: transform_csv_to_json_def parse_csv_blank [OF assms] Let_def to_json_def
      iterencode_list_def)

theorem transform_blank_input_witness:
  "parse_csv [13, 10, 10] = Inr []
   \<and> fst (transform_csv_to_json [13, 10, 10] \<lparr>remote = (), sent = [], stdout = []\<rparr>)
     = Inr (ascii ''[]'')"
  using transform_blank_input [of "[13, 10, 10]"] by (simp add: line_break_def)

subsection \<open>C3: a successful read returns the decoded payload\<close>

lemma a2b_base64_skip:
  "a2b_base64 q l p out (filter base64_char xs) = a2b_base64 q l p out xs"
  by (induction xs arbitrary: q l p out)
    (auto simp: base64_char_def a2b_base64.simps(2) split: option.splits)

lemma b64decode_payload:
  assumes "\<forall>c \<in> set payload. c < 128" "filter base64_char payload = b64encode bs" "is_bytes bs"
  shows "b64decode (JStr payload) = Inr bs"
proof -
  have "a2b_base64 0 0 0 [] payload = a2b_base64 0 0 0 [] (b2a_base64 bs)"
    using a2b_base64_skip [of 0 0 0 "[]" payload] assms(2) by (simp add: b64encode_def)
  then show ?thesis
    using assms(1,3) by (simp add: b64decode_def encode_ascii_def a2b_b2a_base64)
qed

lemma send_sent: "sent (snd (send env req s)) = sent s @ [req]"
  by (simp add: send_def split: prod.splits)

lemma send_stdout: "stdout (snd (send env req s)) = stdout s"
  by (simp add: send_def split: prod.splits)

lemma send_fst: "fst (send env req s) = fst (serve env (remote s) req)"
  by (simp add: send_def split: prod.splits)

lemma serve_server:
  "serve (server g p) w (GET url hdrs) = (Inr g, w)"
  "serve (server g p) w (PUT url hdrs payload) = (Inr p, w)"
  by (simp_all add: server_def)


lemma extract_status_200:
  assumes "serve env (remote s) (GET (build_url owner repo file_path) (create_headers token))
           = (Inr r, w)"
    and "status_code r = 200"
    and "body_json r = Inr file_data"
    and "getitem file_data (ascii ''content'') = Inr (JStr payload)"
    and "\<forall>c \<in> set payload. c < 128"
    and "filter base64_char payload = b64encode bs"
    and "is_bytes bs"
    and "utf8_decode bs = Inr csv_content"
  shows "fst (extract_csv_from_github env owner repo file_path token s) = Inr csv_content"
  using assms(1-4,8) b64decode_payload [OF assms(5-7)]
  by (simp add: extract_csv_from_github_def requests_get_def send_def print_def Let_def
      decode_content_def)




subsection \<open>C4: a failed read raises with the status and the body\<close>

lemma extract_status_other:
  assumes "serve env (remote s) (GET (build_url owner repo file_path) (create_headers token))
           = (Inr r, w)"
    and "status_code r \<noteq> 200"
  shows "fst (extract_csv_from_github env owner repo file_path token s)
         = Inl (Exception ([0x274C] @ ascii '' Failed to extract: '' @ str_int (status_code r)
                           @ ascii '' - '' @ body_text r))
       \<and> sent (snd (extract_csv_from_github env owner repo file_path token s))
         = sent s @ [GET (build_url owner repo file_path) (create_headers token)]"
  using assms
  by (simp add: extract_csv_from_github_def requests_get_def send_def print_def Let_def)


text \<open>
  C4: when the read is answered with a status other than 200, the extract stage raises
  the exception whose message holds the status code and the response body, returns
  nothing, and has sent the one read request only. For status 404 the message holds 404.
\<close>

theorem extract_failure:
  assumes "serve env (remote s) (GET (build_url owner repo file_path) (create_headers token))
           = (Inr r, w)"
    and "status_code r \<noteq> 200"
  shows "fst (extract_csv_from_github env owner repo file_path token s)
         = Inl (Exception ([0x274C] @ ascii '' Failed to extract: '' @ str_int (status_code r)
                           @ ascii '' - '' @ body_text r))
       \<and> sent (snd (extract_csv_from_github env owner repo file_path token s))
         = sent s @ [GET (build_url owner repo file_path) (create_headers token)]"
  using assms by (rule extract_status_other)

theorem extract_failure_witness:
  "fst (extract_csv_from_github
          (server \<lparr>status_code = 404, body_text = ascii ''Not Found'', body_json = Inl JSONDecodeError\<rparr>
                  \<lparr>status_code = 201, body_text = [], body_json = Inr JNull\<rparr>)
          SOURCE_OWNER SOURCE_REPO SOURCE_FILE_PATH GITHUB_TOKEN empty_world)
   = Inl (Exception ([0x274C] @ ascii '' Failed to extract: 404 - Not Found''))
   \<and> sent (snd (extract_csv_from_github
          (server \<lparr>status_code = 404, body_text = ascii ''Not Found'', body_json = Inl JSONDecodeError\<rparr>
                  \<lparr>status_code = 201, body_text = [], body_json = Inr JNull\<rparr>)
          SOURCE_OWNER SOURCE_REPO SOURCE_FILE_PATH GITHUB_TOKEN empty_world))
     = [GET (build_url SOURCE_OWNER SOURCE_REPO SOURCE_FILE_PATH) (create_headers GITHUB_TOKEN)]"
proof -
  let ?r = "\<lparr>status_code = 404, body_text = ascii ''Not Found'', body_json = Inl JSONDecodeError\<rparr>"
  let ?p = "\<lparr>status_code = 201, body_text = [], body_json = Inr JNull\<rparr>"
  have 0: "serve (server ?r ?p) (remote empty_world)
             (GET (build_url SOURCE_OWNER SOURCE_REPO SOURCE_FILE_PATH)
                  (create_headers GITHUB_TOKEN))
           = (Inr ?r, remote empty_world)"
    by (rule serve_server(1))
  have 1: "status_code ?r \<noteq> 200"
    by simp
  have 2: "str_int (status_code ?r) = ascii ''404''"
    by (simp add: str_int_def str_nat.simps ascii_def)
  have 3: "sent empty_world = []"
    by (simp add: empty_world_def)
  show ?thesis
    using extract_failure [OF 0 1] unfolding 2 3 by (simp add: ascii_def)
qed

subsection \<open>C2: the content-hash token in the write payload\<close>

lemma print_fields [simp]:
  "remote (print l s) = remote s" "sent (print l s) = sent s"
  "stdout (print l s) = stdout s @ [l]"
  by (simp_all add: print_def)


text \<open>
  C2: in an upload whose content encodes, when the existence check is answered with
  status 200 and a response holding the token \<open>sha\<close>, the requests sent are the check and
  one write whose payload holds the message, the encoded content, the branch and the
  field \<open>sha\<close> with that very token; when the check is answered with any other status,
  the payload of the write has no \<open>sha\<close> field.
\<close>

theorem load_payload_sha:
  assumes "serve env (remote s) (GET (build_url owner repo file_path) (create_headers token))
           = (Inr check_response, w)"
    and "encode_content json_content = Inr encoded"
  shows "(status_code check_response = 200 \<and> body_json check_response = Inr j
            \<and> getitem j (ascii ''sha'') = Inr sha
          \<longrightarrow> sent (snd (load_json_to_github env owner repo file_path json_content token
                            commit_message s))
              = sent s @ [GET (build_url owner repo file_path) (create_headers token),
                          PUT (build_url owner repo file_path) (create_headers token)
                            [(ascii ''message'', JStr commit_message),
                             (ascii ''content'', JStr encoded),
                             (ascii ''branch'', JStr (ascii ''main'')),
                             (ascii ''sha'', sha)]])
       \<and> (status_code check_response \<noteq> 200
          \<longrightarrow> sent (snd (load_json_to_github env owner repo file_path json_content token
                            commit_message s))
              = sent s @ [GET (build_url owner repo file_path) (create_headers token),
                          PUT (build_url owner repo file_path) (create_headers token)
                            [(ascii ''message'', JStr commit_message),
                             (ascii ''content'', JStr encoded),
                             (ascii ''branch'', JStr (ascii ''main''))]])"
proof -
  have neq: "ascii ''message'' \<noteq> ascii ''sha''" "ascii ''content'' \<noteq> ascii ''sha''"
    "ascii ''branch'' \<noteq> ascii ''sha''"
    by (simp_all add: ascii_def)
  show ?thesis
    using assms
    by (auto simp: load_json_to_github_def requests_get_def requests_put_def send_def
        Let_def neq split: prod.splits sum.splits)
qed

theorem load_payload_sha_witness:
  "sent (snd (load_json_to_github
          (server \<lparr>status_code = 200, body_text = [],
                    body_json = Inr (JObj [(ascii ''sha'', JStr (ascii ''abc123''))])\<rparr>
                  \<lparr>status_code = 200, body_text = [], body_json = Inr JNull\<rparr>)
          DEST_OWNER DEST_REPO DEST_FILE_PATH (ascii ''[]'') GITHUB_TOKEN (ascii ''msg'')
          empty_world))
   = [GET (build_url DEST_OWNER DEST_REPO DEST_FILE_PATH) (create_headers GITHUB_TOKEN),
      PUT (build_url DEST_OWNER DEST_REPO DEST_FILE_PATH) (create_headers GITHUB_TOKEN)
        [(ascii ''message'', JStr (ascii ''msg'')),
         (ascii ''content'', JStr (ascii ''W10='')),
         (ascii ''branch'', JStr (ascii ''main'')),
         (ascii ''sha'', JStr (ascii ''abc123''))]]
   \<and> sent (snd (load_json_to_github
          (server \<lparr>status_code = 404, body_text = [], body_json = Inl JSONDecodeError\<rparr>
                  \<lparr>status_code = 201, body_text = [], body_json = Inr JNull\<rparr>)
          DEST_OWNER DEST_REPO DEST_FILE_PATH (ascii ''[]'') GITHUB_TOKEN (ascii ''msg'')
          empty_world))
   = [GET (build_url DEST_OWNER DEST_REPO DEST_FILE_PATH) (create_headers GITHUB_TOKEN),
      PUT (build_url DEST_OWNER DEST_REPO DEST_FILE_PATH) (create_headers GITHUB_TOKEN)
        [(ascii ''message'', JStr (ascii ''msg'')),
         (ascii ''content'', JStr (ascii ''W10='')),
         (ascii ''branch'', JStr (ascii ''main''))]]"
proof -
  let ?r = "\<lparr>status_code = 200, body_text = [],
             body_json = Inr (JObj [(ascii ''sha'', JStr (ascii ''abc123''))])\<rparr>"
  let ?p = "\<lparr>status_code = 200, body_text = [], body_json = Inr JNull\<rparr>"
  let ?r' = "\<lparr>status_code = 404, body_text = [], body_json = Inl JSONDecodeError\<rparr>"
  let ?p' = "\<lparr>status_code = 201, body_text = [], body_json = Inr JNull\<rparr>"
  have enc: "encode_content (ascii ''[]'') = Inr (ascii ''W10='')"
    by (simp add: encode_content_def ascii_def utf8_encode_char_def b64encode_def b2a_table_def
        BASE64_PAD_def emit_def)
  have 0: "serve (server ?r ?p) (remote empty_world)
             (GET (build_url DEST_OWNER DEST_REPO DEST_FILE_PATH) (create_headers GITHUB_TOKEN))
           = (Inr ?r, remote empty_world)"
    by (rule serve_server(1))
  have 4: "serve (server ?r' ?p') (remote empty_world)
             (GET (build_url DEST_OWNER DEST_REPO DEST_FILE_PATH) (create_headers GITHUB_TOKEN))
           = (Inr ?r', remote empty_world)"
    by (rule serve_server(1))
  have 1: "status_code ?r = 200 \<and> body_json ?r = Inr (JObj [(ascii ''sha'', JStr (ascii ''abc123''))])
           \<and> getitem (JObj [(ascii ''sha'', JStr (ascii ''abc123''))]) (ascii ''sha'')
             = Inr (JStr (ascii ''abc123''))"
    by (simp add: getitem_def)
  have 2: "status_code ?r' \<noteq> 200"
    by simp
  have 3: "sent empty_world = []"
    by (simp add: empty_world_def)
  show ?thesis
    using load_payload_sha [OF 0 enc, of "JObj [(ascii ''sha'', JStr (ascii ''abc123''))]"
        "JStr (ascii ''abc123'')" "ascii ''msg''"]
      load_payload_sha [OF 4 enc, of JNull JNull "ascii ''msg''"] 1 2
    unfolding 3 by simp
qed

subsection \<open>C6: no stage runs after a failed stage\<close>

lemma extract_sent:
  "sent (snd (extract_csv_from_github env owner repo file_path token s))
   = sent s @ [GET (build_url owner repo file_path) (create_headers token)]"
  by (auto simp: extract_csv_from_github_def requests_get_def send_def Let_def
      split: prod.splits sum.splits)

lemma extract_stdout_failure:
  "fst (extract_csv_from_github env owner repo file_path token s) = Inl e \<Longrightarrow>
   stdout (snd (extract_csv_from_github env owner repo file_path token s))
   = stdout s @ [[0x1F4E5] @ ascii '' Extracting data from: '' @ owner @ ascii ''/'' @ repo
                  @ ascii ''/'' @ file_path]"
  by (auto simp: extract_csv_from_github_def requests_get_def send_def Let_def
      split: prod.splits sum.splits if_splits)

lemma extract_stdout_success:
  "fst (extract_csv_from_github env owner repo file_path token s) = Inr csv_content \<Longrightarrow>
   stdout (snd (extract_csv_from_github env owner repo file_path token s))
   = stdout s @ [[0x1F4E5] @ ascii '' Extracting data from: '' @ owner @ ascii ''/'' @ repo
                  @ ascii ''/'' @ file_path,
                 [0x2705] @ ascii '' Extraction successful!'']"
  by (auto simp: extract_csv_from_github_def requests_get_def send_def Let_def
      split: prod.splits sum.splits if_splits)

lemma transform_sent: "sent (snd (transform_csv_to_json csv_content s)) = sent s"
  by (simp add: transform_csv_to_json_def Let_def split: sum.splits)

lemma transform_fst:
  "fst (transform_csv_to_json csv_content s)
   = (case parse_csv csv_content of Inl e \<Rightarrow> Inl e | Inr data \<Rightarrow> Inr (to_json data))"
  by (simp add: transform_csv_to_json_def Let_def split: sum.splits)

lemma transform_stdout_failure:
  "parse_csv csv_content = Inl e \<Longrightarrow>
   stdout (snd (transform_csv_to_json csv_content s))
   = stdout s @ [[0x1F504] @ ascii '' Transforming CSV to JSON...'']"
  by (simp add: transform_csv_to_json_def Let_def)

lemma report_failure_fields [simp]:
  "sent (report_failure env e s) = sent s"
  "stdout (report_failure env e s)
   = stdout s @ [[10] @ banner, [0x1F4A5] @ ascii '' ETL Pipeline failed: '' @ str_of_exception env e,
                 banner]"
  by (simp_all add: report_failure_def)

lemma print_start_fields [simp]:
  "sent (print_start s) = sent s"
  "remote (print_start s) = remote s"
  "stdout (print_start s)
   = stdout s @ [[10] @ banner,
                 [0x1F680] @ ascii '' Starting ETL Pipeline: GitHub CSV '' @ [0x2192]
                   @ ascii '' JSON Transfer'',
                 banner @ [10]]"
  by (simp_all add: print_start_def)

lemma etl_try_extract_failure:
  assumes "fst (extract_source env s) = Inl e"
  shows "etl_try env s = (Inl e, snd (extract_source env s))"
  using assms by (auto simp: etl_try_def extract_source_def split: prod.splits)

lemma etl_try_transform_failure:
  assumes "fst (extract_source env s) = Inr csv_content" "parse_csv csv_content = Inl e"
  shows "etl_try env s
         = (Inl e, snd (transform_csv_to_json csv_content (print [] (snd (extract_source env s)))))"
  using assms
  by (auto simp: etl_try_def extract_source_def transform_csv_to_json_def Let_def
      split: prod.splits sum.splits)


text \<open>
  C6: in a run whose extract stage fails, the only request sent is the read of the
  source, and the lines printed are the opening banner, the line of the extract stage and
  the failure report: neither the transform stage nor the load stage has run, and no
  write request was issued. In a run whose extract stage succeeds and whose transform
  stage fails, the only request sent is again the read of the source: the load stage has
  not run.
\<close>

theorem no_stage_after_failure:
  "(fst (extract_source env (print_start s)) = Inl e \<longrightarrow>
      sent (snd (run_etl_pipeline env s)) = sent s @ [source_request]
      \<and> stdout (snd (run_etl_pipeline env s))
        = stdout (print_start s)
          @ [extracting_line]
          @ [[10] @ banner, [0x1F4A5] @ ascii '' ETL Pipeline failed: '' @ str_of_exception env e,
             banner])
   \<and> (fst (extract_source env (print_start s)) = Inr csv_content
        \<and> parse_csv csv_content = Inl e \<longrightarrow>
      sent (snd (run_etl_pipeline env s)) = sent s @ [source_request]
      \<and> stdout (snd (run_etl_pipeline env s))
        = stdout (print_start s)
          @ [extracting_line, [0x2705] @ ascii '' Extraction successful!'', [],
             [0x1F504] @ ascii '' Transforming CSV to JSON...'']
          @ [[10] @ banner, [0x1F4A5] @ ascii '' ETL Pipeline failed: '' @ str_of_exception env e,
             banner])"
proof (intro conjI impI)
  assume a: "fst (extract_source env (print_start s)) = Inl e"
  have run: "run_etl_pipeline env s
             = (Inr (), report_failure env e (snd (extract_source env (print_start s))))"
    by (simp add: run_etl_pipeline_def etl_try_extract_failure [OF a])
  show "sent (snd (run_etl_pipeline env s)) = sent s @ [source_request]"
    by (simp add: run extract_source_def extract_sent source_request_def)
  show "stdout (snd (run_etl_pipeline env s))
        = stdout (print_start s) @ [extracting_line]
          @ [[10] @ banner, [0x1F4A5] @ ascii '' ETL Pipeline failed: '' @ str_of_exception env e,
             banner]"
    using a unfolding run extract_source_def
    by (simp add: extract_stdout_failure extracting_line_def del: print_start_fields)
next
  assume b: "fst (extract_source env (print_start s)) = Inr csv_content
             \<and> parse_csv csv_content = Inl e"
  then have b1: "fst (extract_source env (print_start s)) = Inr csv_content"
    and b2: "parse_csv csv_content = Inl e"
    by simp_all
  have run: "run_etl_pipeline env s
             = (Inr (), report_failure env e
                  (snd (transform_csv_to_json csv_content
                          (print [] (snd (extract_source env (print_start s)))))))"
    by (simp add: run_etl_pipeline_def etl_try_transform_failure [OF b1 b2])
  show "sent (snd (run_etl_pipeline env s)) = sent s @ [source_request]"
    by (simp add: run transform_sent extract_source_def extract_sent source_request_def)
  show "stdout (snd (run_etl_pipeline env s))
        = stdout (print_start s)
          @ [extracting_line, [0x2705] @ ascii '' Extraction successful!'', [],
             [0x1F504] @ ascii '' Transforming CSV to JSON...'']
          @ [[10] @ banner, [0x1F4A5] @ ascii '' ETL Pipeline failed: '' @ str_of_exception env e,
             banner]"
    using b1 unfolding run extract_source_def
    by (simp add: transform_stdout_failure [OF b2] extract_stdout_success extracting_line_def
        del: print_start_fields)
qed

lemma serve_source_404:
  "serve (server response_404 response_201) (remote (print_start empty_world))
     (GET (build_url SOURCE_OWNER SOURCE_REPO SOURCE_FILE_PATH) (create_headers GITHUB_TOKEN))
   = (Inr response_404, remote (print_start empty_world))"
  by (rule serve_server(1))

lemma extract_source_404:
  "fst (extract_source (server response_404 response_201) (print_start empty_world))
   = Inl (Exception ([0x274C] @ ascii '' Failed to extract: 404 - Not Found''))"
proof -
  have 1: "status_code response_404 \<noteq> 200"
    by (simp add: response_404_def)
  have 2: "str_int (status_code response_404) = ascii ''404''"
    "body_text response_404 = ascii ''Not Found''"
    by (simp_all add: response_404_def str_int_def str_nat.simps ascii_def)
  show ?thesis
    using extract_status_other [OF serve_source_404 1]
    unfolding extract_source_def 2 by (simp add: ascii_def)
qed

lemma serve_source_bad_csv:
  "serve (server (response_content (ascii ''YQ1i'')) response_201)
     (remote (print_start empty_world))
     (GET (build_url SOURCE_OWNER SOURCE_REPO SOURCE_FILE_PATH) (create_headers GITHUB_TOKEN))
   = (Inr (response_content (ascii ''YQ1i'')), remote (print_start empty_world))"
  by (rule serve_server(1))

lemma extract_source_bad_csv:
  "fst (extract_source (server (response_content (ascii ''YQ1i'')) response_201)
          (print_start empty_world))
   = Inr [97, 13, 98]"
proof -
  let ?r = "response_content (ascii ''YQ1i'')"
  have 1: "status_code ?r = 200"
    and 2: "body_json ?r = Inr (JObj [(ascii ''content'', JStr (ascii ''YQ1i''))])"
    by (simp_all add: response_content_def)
  have 3: "getitem (JObj [(ascii ''content'', JStr (ascii ''YQ1i''))]) (ascii ''content'')
           = Inr (JStr (ascii ''YQ1i''))"
    by (simp add: getitem_def)
  have 4: "\<forall>c \<in> set (ascii ''YQ1i''). c < 128"
    by (simp add: ascii_def)
  have 5: "filter base64_char (ascii ''YQ1i'') = b64encode [97, 13, 98]"
    by (simp add: ascii_def base64_char_def a2b_table_def BASE64_PAD_def b64encode_def
        b2a_table_def)
  have 6: "is_bytes [97, 13, 98]"
    by (simp add: is_bytes_def)
  have 7: "utf8_decode [97, 13, 98] = Inr [97, 13, 98]"
    by (simp add: emit_def)
  show ?thesis
    unfolding extract_source_def
    by (rule extract_status_200 [OF serve_source_bad_csv 1 2 3 4 5 6 7])
qed

lemma parse_csv_bad: "parse_csv [97, 13, 98] = Inl csv_Error"
  by (simp add: parse_csv_def DictReader_def csv_reader_def csv_defs)

theorem no_stage_after_failure_witness:
  "sent (snd (run_etl_pipeline (server response_404 response_201) empty_world))
     = [source_request]
   \<and> stdout (snd (run_etl_pipeline (server response_404 response_201) empty_world))
     = [[10] @ banner,
        [0x1F680] @ ascii '' Starting ETL Pipeline: GitHub CSV '' @ [0x2192]
          @ ascii '' JSON Transfer'',
        banner @ [10],
        extracting_line,
        [10] @ banner,
        [0x1F4A5] @ ascii '' ETL Pipeline failed: '' @ [0x274C]
          @ ascii '' Failed to extract: 404 - Not Found'',
        banner]
   \<and> sent (snd (run_etl_pipeline (server (response_content (ascii ''YQ1i'')) response_201)
                   empty_world))
     = [source_request]"
  using no_stage_after_failure [of "server response_404 response_201" empty_world
      "Exception ([0x274C] @ ascii '' Failed to extract: 404 - Not Found'')" "[]"]
    no_stage_after_failure [of "server (response_content (ascii ''YQ1i'')) response_201"
      empty_world csv_Error "[97, 13, 98]"]
    extract_source_404 extract_source_bad_csv parse_csv_bad
  by (simp add: empty_world_def str_of_exception_def)

subsection \<open>C9: every failure is caught and reported\<close>

lemma etl_try_load_failure:
  assumes "extract_source env s = (Inr csv_content, s1)"
    and "transform_csv_to_json csv_content (print [] s1) = (Inr json_data, s2)"
    and "fst (load_json_to_github env DEST_OWNER DEST_REPO DEST_FILE_PATH json_data GITHUB_TOKEN
               (ascii ''ETL Pipeline: Automated CSV to JSON conversion'') (print [] s2)) = Inl e"
  shows "fst (etl_try env s) = Inl e"
  using assms by (auto simp: etl_try_def extract_source_def split: prod.splits sum.splits)

lemma extract_transport_failure:
  assumes "serve env (remote s) source_request = (Inl e, w)"
  shows "fst (extract_source env s) = Inl e"
  using assms
  by (simp add: extract_source_def source_request_def extract_csv_from_github_def
      requests_get_def send_def Let_def)

lemma run_returns: "fst (run_etl_pipeline env s) = Inr ()"
  by (simp add: run_etl_pipeline_def split: prod.splits sum.splits)

lemma run_reports:
  assumes "fst (etl_try env (print_start s)) = Inl e"
  shows "snd (run_etl_pipeline env s) = report_failure env e (snd (etl_try env (print_start s)))"
  using assms by (auto simp: run_etl_pipeline_def split: prod.splits sum.splits)


text \<open>
  C9: a run of the orchestrator never raises. When the body of its \<open>try\<close> fails with an
  exception \<open>e\<close>, the run prints, after everything printed so far, the failure report
  whose middle line ends with \<open>str(e)\<close>, which for an exception raised by the pipeline
  itself is its message. The body fails with \<open>e\<close> whenever a stage does: a transport
  failure of the read, a failed extract stage, a failed transform stage after a
  successful extract, and a failed load stage after both.
\<close>

theorem failure_reported:
  "fst (run_etl_pipeline env s) = Inr ()
   \<and> (fst (etl_try env (print_start s)) = Inl e \<longrightarrow>
        stdout (snd (run_etl_pipeline env s))
        = stdout (snd (etl_try env (print_start s)))
          @ [[10] @ banner,
             [0x1F4A5] @ ascii '' ETL Pipeline failed: '' @ str_of_exception env e,
             banner])
   \<and> str_of_exception env (Exception msg) = msg
   \<and> (serve env (remote s0) source_request = (Inl e, w) \<longrightarrow> fst (extract_source env s0) = Inl e)
   \<and> (fst (extract_source env s0) = Inl e \<longrightarrow> fst (etl_try env s0) = Inl e)
   \<and> (fst (extract_source env s0) = Inr csv_content \<and> parse_csv csv_content = Inl e \<longrightarrow>
        fst (etl_try env s0) = Inl e)
   \<and> (extract_source env s0 = (Inr csv_content, s1)
        \<and> transform_csv_to_json csv_content (print [] s1) = (Inr json_data, s2)
        \<and> fst (load_json_to_github env DEST_OWNER DEST_REPO DEST_FILE_PATH json_data GITHUB_TOKEN
                 (ascii ''ETL Pipeline: Automated CSV to JSON conversion'') (print [] s2)) = Inl e
        \<longrightarrow> fst (etl_try env s0) = Inl e)"
  by (simp add: run_returns run_reports str_of_exception_def extract_transport_failure
      etl_try_extract_failure etl_try_transform_failure etl_try_load_failure)

theorem failure_reported_witness:
  "fst (run_etl_pipeline (server response_404 response_201) empty_world) = Inr ()
   \<and> stdout (snd (run_etl_pipeline (server response_404 response_201) empty_world))
     = [[10] @ banner,
        [0x1F680] @ ascii '' Starting ETL Pipeline: GitHub CSV '' @ [0x2192]
          @ ascii '' JSON Transfer'',
        banner @ [10],
        extracting_line,
        [10] @ banner,
        [0x1F4A5] @ ascii '' ETL Pipeline failed: '' @ [0x274C]
          @ ascii '' Failed to extract: 404 - Not Found'',
        banner]"
proof -
  let ?env = "server response_404 response_201"
  let ?e = "Exception ([0x274C] @ ascii '' Failed to extract: 404 - Not Found'')"
  note inst = failure_reported [of ?env empty_world ?e "[]" "print_start empty_world" "()" "[]"
      empty_world "[]" empty_world]
  have 1: "fst (etl_try ?env (print_start empty_world)) = Inl ?e"
    using inst extract_source_404 by blast
  have 2: "stdout (snd (etl_try ?env (print_start empty_world)))
           = stdout (print_start empty_world) @ [extracting_line]"
    using extract_source_404
    by (simp add: etl_try_extract_failure extract_source_def extract_stdout_failure
        extracting_line_def del: print_start_fields)
  show ?thesis
    using inst 1 2 by (simp add: empty_world_def str_of_exception_def)
qed

subsection \<open>C1: one record per data row, in order\<close>

lemma StringIO_lines_Nil: "StringIO_lines cs = [] \<longleftrightarrow> cs = []"
  by (cases cs) (auto split: list.splits)

lemma Reader_rows_char:
  "Reader_rows self ((c # l) # ls)
   = (case parse_process_char self (Some c) of
        Inl e \<Rightarrow> Inl e
      | Inr self' \<Rightarrow> Reader_rows self' (l # ls))"
  by (simp split: sum.splits)

lemma Reader_rows_eol:
  "Reader_rows self ([] # ls)
   = (case parse_process_char self None of
        Inl e \<Rightarrow> Inl e
      | Inr self' \<Rightarrow>
          if state self' \<noteq> START_RECORD then Reader_rows self' ls
          else emit_row (fields_lst self') (Reader_rows parse_reset ls))"
  by (simp add: emit_row_def split: sum.splits)

lemma stream_lines:
  "stream self False cs = Reader_rows self (StringIO_lines cs)"
  "stream self True cs = Reader_rows self (if cs = [] then [[]] else StringIO_lines cs)"
proof (induction cs arbitrary: self)
  case Nil
  {
    case 1
    show ?case by simp
  next
    case 2
    show ?case by simp
  }
next
  case (Cons c cs)
  have step: "Reader_rows self (StringIO_lines (c # cs)) = stream self mid (c # cs)" for self mid
  proof (cases "c = 10")
    case True
    then show ?thesis
      using Cons.IH(1)
      by (simp add: Reader_rows_char Reader_rows_eol del: Reader_rows.simps
          split: sum.splits)
  next
    case False
    obtain l ls where l: "(if cs = [] then [[]] else StringIO_lines cs) = l # ls"
      using StringIO_lines_Nil [of cs] by (cases "StringIO_lines cs") auto
    have "StringIO_lines (c # cs) = (c # l) # ls"
      using False l by (auto split: list.splits if_splits)
    then have "Reader_rows self (StringIO_lines (c # cs))
        = (case parse_process_char self (Some c) of
             Inl e \<Rightarrow> Inl e
           | Inr self' \<Rightarrow> Reader_rows self' (if cs = [] then [[]] else StringIO_lines cs))"
      unfolding l by (simp only: Reader_rows_char)
    then show ?thesis
      using False Cons.IH(2) by (simp split: sum.splits)
  qed
  {
    case 1
    show ?case using step [of self False] by simp
  next
    case 2
    show ?case using step [of self True] by simp
  }
qed

lemma stream_char:
  "c \<noteq> 10 \<Longrightarrow> parse_process_char r (Some c) = Inr r' \<Longrightarrow>
   stream r mid (c # rest) = stream r' True rest"
  by simp

lemma stream_line_feed:
  "parse_process_char r (Some 10) = Inr r' \<Longrightarrow> parse_process_char r' None = Inr r'' \<Longrightarrow>
   state r'' \<noteq> START_RECORD \<Longrightarrow> stream r mid (10 # rest) = stream r'' False rest"
  by simp

lemma in_field_chars:
  "state r = IN_FIELD \<Longrightarrow> \<forall>c \<in> set cs. c \<noteq> delimiter \<and> c \<noteq> 10 \<and> c \<noteq> 13 \<Longrightarrow>
   length (field r) + length cs \<le> field_limit \<Longrightarrow>
   stream r True (cs @ rest) = stream (r\<lparr>field := field r @ cs\<rparr>) True rest"
proof (induction cs arbitrary: r)
  case Nil
  then show ?case by simp
next
  case (Cons c cs)
  have "parse_process_char r (Some c) = Inr (r\<lparr>field := field r @ [c]\<rparr>)"
    using Cons.prems by (simp add: parse_process_char_def parse_add_char_def)
  then show ?case using Cons.IH [of "r\<lparr>field := field r @ [c]\<rparr>"] Cons.prems
    by simp
qed

lemma unquoted_chars:
  assumes "at_start r" "unquoted_field f" "f \<noteq> []"
  shows "stream r mid (f @ rest) = stream (r\<lparr>field := f, state := IN_FIELD\<rparr>) True rest"
proof -
  obtain c cs where f: "f = c # cs" using assms(3) by (cases f) auto
  have c: "c \<noteq> delimiter" "c \<noteq> 10" "c \<noteq> 13" "c \<noteq> quotechar"
    "\<forall>x \<in> set cs. x \<noteq> delimiter \<and> x \<noteq> 10 \<and> x \<noteq> 13" "Suc (length cs) \<le> field_limit"
    using assms(2) by (simp_all add: unquoted_field_def f)
  have first: "parse_process_char r (Some c) = Inr (r\<lparr>field := [c], state := IN_FIELD\<rparr>)"
    using assms(1) c(1-4)
    by (auto simp: at_start_def parse_process_char_def start_field_def parse_add_char_def
        set_state_def field_limit_def)
  have "stream (r\<lparr>field := [c], state := IN_FIELD\<rparr>) True (cs @ rest)
        = stream (r\<lparr>field := c # cs, state := IN_FIELD\<rparr>) True rest"
    using in_field_chars [of "r\<lparr>field := [c], state := IN_FIELD\<rparr>" cs rest] c(5,6)
    by (cases r) simp
  then show ?thesis
    using c(2) by (simp add: f first)
qed

lemma quoted_chars:
  "state r = IN_QUOTED_FIELD \<Longrightarrow> length (field r) + length f \<le> field_limit \<Longrightarrow>
   stream r mid (double_quotes f @ rest)
   = stream (r\<lparr>field := field r @ f\<rparr>) (mid_after mid f) rest"
proof (induction f arbitrary: r mid)
  case Nil
  then show ?case by (simp add: double_quotes_def mid_after_def)
next
  case (Cons c cs)
  let ?r = "r\<lparr>field := field r @ [c]\<rparr>"
  have len: "length (field r) < field_limit" using Cons.prems(2) by simp
  have ih: "stream ?r m (double_quotes cs @ rest)
            = stream (r\<lparr>field := field r @ c # cs\<rparr>) (mid_after m cs) rest" for m
    using Cons.IH [of ?r m] Cons.prems by simp
  have dq: "double_quotes (c # cs) = (if c = quotechar then [quotechar, quotechar] else [c])
              @ double_quotes cs"
    by (simp add: double_quotes_def)
  show ?case
  proof (cases "c = quotechar")
    case True
    have 1: "parse_process_char r (Some quotechar) = Inr (r\<lparr>state := QUOTE_IN_QUOTED_FIELD\<rparr>)"
      using Cons.prems(1) by (simp add: parse_process_char_def)
    have 2: "parse_process_char (r\<lparr>state := QUOTE_IN_QUOTED_FIELD\<rparr>) (Some quotechar) = Inr ?r"
      using Cons.prems(1) len True
      by (cases r) (simp add: parse_process_char_def parse_add_char_def set_state_def)
    have q10: "quotechar \<noteq> 10" by (simp add: quotechar_def)
    have m: "mid_after True cs = mid_after mid (c # cs)"
      using True q10 by (simp add: mid_after_def)
    have "double_quotes (c # cs) @ rest = quotechar # quotechar # (double_quotes cs @ rest)"
      by (simp add: double_quotes_def True)
    then have "stream r mid (double_quotes (c # cs) @ rest)
               = stream ?r True (double_quotes cs @ rest)"
      using stream_char [OF q10 1, of mid "quotechar # (double_quotes cs @ rest)"]
        stream_char [OF q10 2, of True "double_quotes cs @ rest"]
      by simp
    then show ?thesis
      using ih [of True] m by simp
  next
    case False
    have 1: "parse_process_char r (Some c) = Inr ?r"
      using Cons.prems(1) len False by (simp add: parse_process_char_def parse_add_char_def)
    have dq': "double_quotes (c # cs) @ rest = c # (double_quotes cs @ rest)"
      by (simp add: double_quotes_def False)
    show ?thesis
    proof (cases "c = 10")
      case True
      have 2: "parse_process_char ?r None = Inr ?r" "state ?r \<noteq> START_RECORD"
        using Cons.prems(1) by (simp_all add: parse_process_char_def)
      have m: "mid_after False cs = mid_after mid (c # cs)"
        using True by (simp add: mid_after_def)
      have "stream r mid (c # (double_quotes cs @ rest)) = stream ?r False (double_quotes cs @ rest)"
        unfolding True using 1 2 unfolding True by (rule stream_line_feed)
      then show ?thesis
        using ih [of False] m by (simp only: dq')
    next
      case c10: False
      have m: "mid_after True cs = mid_after mid (c # cs)"
        using c10 by (simp add: mid_after_def)
      have "stream r mid (c # (double_quotes cs @ rest)) = stream ?r True (double_quotes cs @ rest)"
        using c10 1 by (rule stream_char)
      then show ?thesis
        using ih [of True] m by (simp only: dq')
    qed
  qed
qed

lemma closing_delimiter:
  "closing r \<or> at_start r \<Longrightarrow> parse_process_char r (Some delimiter) = Inr (saved r START_FIELD)"
  by (auto simp: closing_def at_start_def saved_def parse_process_char_def start_field_def
      parse_save_field_def delimiter_def quotechar_def)

lemma closing_newline:
  "closing r \<Longrightarrow> c = 10 \<or> c = 13 \<Longrightarrow> parse_process_char r (Some c) = Inr (saved r EAT_CRNL)"
  by (auto simp: closing_def saved_def parse_process_char_def start_field_def
      parse_save_field_def delimiter_def quotechar_def)

lemma closing_eol:
  "closing r \<Longrightarrow> parse_process_char r None = Inr (saved r START_RECORD)"
  by (auto simp: closing_def saved_def parse_process_char_def start_field_def
      parse_save_field_def)

lemma eat_crnl:
  "state r = EAT_CRNL \<Longrightarrow>
   stream r mid (10 # rest) = emit_row (fields_lst r) (stream parse_reset False rest)"
  by (simp add: parse_process_char_def)

lemma stream_delimiter:
  assumes "closing r \<or> at_start r"
  shows "stream r mid (delimiter # rest) = stream (saved r START_FIELD) True rest"
proof -
  have "delimiter \<noteq> 10" by (simp add: delimiter_def)
  then show ?thesis using closing_delimiter [OF assms] by (rule stream_char)
qed

lemma stream_line_end:
  assumes "closing r" "line_end eol"
  shows "stream r mid (eol @ rest)
         = emit_row (fields_lst r @ [field r]) (stream parse_reset False rest)"
proof -
  have s: "state (saved r EAT_CRNL) = EAT_CRNL" "fields_lst (saved r EAT_CRNL) = fields_lst r @ [field r]"
    by (simp_all add: saved_def)
  have lf: "stream r m (10 # rest)
            = emit_row (fields_lst r @ [field r]) (stream parse_reset False rest)" for m
    using closing_newline [OF assms(1), of 10]
    by (simp add: saved_def parse_process_char_def)
  have "stream r mid (13 # 10 # rest) = stream (saved r EAT_CRNL) True (10 # rest)"
    using closing_newline [OF assms(1), of 13] by simp
  then have crlf: "stream r mid (13 # 10 # rest)
            = emit_row (fields_lst r @ [field r]) (stream parse_reset False rest)"
    using eat_crnl [OF s(1), of True rest] by (simp only: s(2))
  show ?thesis
    using assms(2) lf [of mid] crlf by (auto simp: line_end_def)
qed

lemma stream_blank_line:
  assumes "state r = START_RECORD" "line_end eol"
  shows "stream r mid (eol @ rest) = emit_row (fields_lst r) (stream parse_reset False rest)"
proof -
  have lf: "stream r m (10 # rest) = emit_row (fields_lst r) (stream parse_reset False rest)" for m
    using assms(1) by (simp add: parse_process_char_def)
  have "stream r mid (13 # 10 # rest) = stream (r\<lparr>state := EAT_CRNL\<rparr>) True (10 # rest)"
    using assms(1) by (simp add: parse_process_char_def)
  then have crlf: "stream r mid (13 # 10 # rest)
                   = emit_row (fields_lst r) (stream parse_reset False rest)"
    using eat_crnl [of "r\<lparr>state := EAT_CRNL\<rparr>" True rest] by simp
  show ?thesis
    using assms(2) lf [of mid] crlf by (auto simp: line_end_def)
qed

lemma stream_end:
  "closing r \<Longrightarrow> stream r True [] = Inr [fields_lst r @ [field r]]"
  using closing_eol [of r] by (simp add: saved_def parse_reset_def)

lemma quoted_field:
  assumes "at_start r" "length f \<le> field_limit"
  shows "stream r mid (quotechar # double_quotes f @ quotechar # rest)
         = stream (r\<lparr>field := f, state := QUOTE_IN_QUOTED_FIELD\<rparr>) True rest"
proof -
  let ?q = "r\<lparr>state := IN_QUOTED_FIELD\<rparr>"
  have q10: "quotechar \<noteq> 10" by (simp add: quotechar_def)
  have 1: "parse_process_char r (Some quotechar) = Inr ?q"
    using assms(1)
    by (auto simp: at_start_def parse_process_char_def start_field_def quotechar_def)
  have 2: "stream ?q True (double_quotes f @ quotechar # rest)
           = stream (?q\<lparr>field := field ?q @ f\<rparr>) (mid_after True f) (quotechar # rest)"
    using assms by (intro quoted_chars) (simp_all add: at_start_def)
  have 3: "parse_process_char (?q\<lparr>field := field ?q @ f\<rparr>) (Some quotechar)
           = Inr (r\<lparr>field := f, state := QUOTE_IN_QUOTED_FIELD\<rparr>)"
    using assms(1) by (cases r) (simp add: parse_process_char_def at_start_def)
  have "stream r mid (quotechar # (double_quotes f @ quotechar # rest))
        = stream ?q True (double_quotes f @ quotechar # rest)"
    using q10 1 by (rule stream_char)
  also have "\<dots> = stream (r\<lparr>field := f, state := QUOTE_IN_QUOTED_FIELD\<rparr>) True rest"
    unfolding 2 using q10 3 by (rule stream_char)
  finally show ?thesis by simp
qed

lemma field_chars:
  assumes "at_start r" "valid_field x"
  shows "\<exists>r' mid'. (\<forall>rest. stream r mid (render_field x @ rest) = stream r' mid' rest)
           \<and> fields_lst r' = fields_lst r \<and> field r' = snd x
           \<and> (if x = (False, []) then r' = r \<and> mid' = mid else mid' \<and> closing r')"
proof -
  obtain quoted f where x: "x = (quoted, f)" by (cases x)
  show ?thesis
  proof (cases quoted)
    case True
    let ?r = "r\<lparr>field := f, state := QUOTE_IN_QUOTED_FIELD\<rparr>"
    have "length f \<le> field_limit" using assms(2) by (simp add: valid_field_def x True)
    then have "\<forall>rest. stream r mid (render_field x @ rest) = stream ?r True rest"
      using quoted_field [OF assms(1), of f mid] by (simp add: render_field_def x True)
    then show ?thesis
      by (intro exI [of _ ?r] exI [of _ True]) (simp add: x True closing_def)
  next
    case False
    have u: "unquoted_field f" using assms(2) by (simp add: valid_field_def x False)
    show ?thesis
    proof (cases "f = []")
      case True
      then show ?thesis
        using assms(1)
        by (intro exI [of _ r] exI [of _ mid]) (simp add: x False render_field_def at_start_def)
    next
      case ne: False
      let ?r = "r\<lparr>field := f, state := IN_FIELD\<rparr>"
      have "\<forall>rest. stream r mid (render_field x @ rest) = stream ?r True rest"
        using unquoted_chars [OF assms(1) u ne, of mid] by (simp add: render_field_def x False)
      then show ?thesis
        using ne by (intro exI [of _ ?r] exI [of _ True]) (simp add: x False closing_def)
    qed
  qed
qed

lemma render_row_Cons:
  "render_row (x # y # ys) = render_field x @ delimiter # render_row (y # ys)"
  by (simp add: render_row_def)

lemma row_chars:
  "\<forall>x \<in> set row. valid_field x \<Longrightarrow> row \<noteq> [] \<Longrightarrow> at_start r \<Longrightarrow>
   (blank_row row \<longrightarrow> state r = START_FIELD) \<Longrightarrow>
   \<exists>r' mid'. (\<forall>rest. stream r mid (render_row row @ rest) = stream r' mid' rest)
     \<and> closing r' \<and> fields_lst r' @ [field r'] = fields_lst r @ row_values row
     \<and> (mid \<or> \<not> blank_row row \<longrightarrow> mid')"
proof (induction row arbitrary: r mid)
  case Nil
  then show ?case by simp
next
  case (Cons x xs)
  have vx: "valid_field x" using Cons.prems(1) by simp
  obtain r1 mid1 where r1:
    "\<And>rest. stream r mid (render_field x @ rest) = stream r1 mid1 rest"
    "fields_lst r1 = fields_lst r" "field r1 = snd x"
    "if x = (False, []) then r1 = r \<and> mid1 = mid else mid1 \<and> closing r1"
    using field_chars [OF Cons.prems(3) vx, of mid] by blast
  show ?case
  proof (cases xs)
    case Nil
    have "closing r1"
      using r1(4) Cons.prems(3,4) Nil
      by (auto simp: blank_row_def closing_def at_start_def split: if_splits)
    moreover have "mid \<or> \<not> blank_row (x # xs) \<longrightarrow> mid1"
      using r1(4) Nil by (auto simp: blank_row_def split: if_splits)
    ultimately show ?thesis
      using r1(1,2,3) Nil
      by (intro exI [of _ r1] exI [of _ mid1]) (simp add: render_row_def row_values_def)
  next
    case (Cons y ys)
    let ?s = "saved r1 START_FIELD"
    have c1: "closing r1 \<or> at_start r1"
      using r1(4) Cons.prems(3) by (auto split: if_splits)
    have s: "at_start ?s" "state ?s = START_FIELD"
      by (simp_all add: at_start_def saved_def)
    have "\<exists>r' mid'. (\<forall>rest. stream ?s True (render_row xs @ rest) = stream r' mid' rest)
       \<and> closing r' \<and> fields_lst r' @ [field r'] = fields_lst ?s @ row_values xs
       \<and> (True \<or> \<not> blank_row xs \<longrightarrow> mid')"
      using Cons.prems(1) Cons s by (intro Cons.IH) simp_all
    then obtain r' mid' where r':
      "\<And>rest. stream ?s True (render_row xs @ rest) = stream r' mid' rest"
      "closing r'" "fields_lst r' @ [field r'] = fields_lst ?s @ row_values xs" "mid'"
      by blast
    have "stream r mid (render_row (x # xs) @ rest) = stream r' mid' rest" for rest
    proof -
      have "stream r mid (render_row (x # xs) @ rest)
            = stream r1 mid1 (delimiter # (render_row xs @ rest))"
        using r1(1) [of "delimiter # (render_row xs @ rest)"]
        by (simp add: Cons render_row_Cons)
      also have "\<dots> = stream ?s True (render_row xs @ rest)"
        by (rule stream_delimiter [OF c1])
      finally show ?thesis by (simp only: r'(1))
    qed
    moreover have "fields_lst r' @ [field r'] = fields_lst r @ row_values (x # xs)"
      using r'(3) r1(2,3) by (simp add: saved_def row_values_def)
    ultimately show ?thesis
      using r'(2,4) by (intro exI [of _ r'] exI [of _ mid']) simp
  qed
qed

lemma start_reset: "at_start parse_reset" "state parse_reset = START_RECORD"
  "fields_lst parse_reset = []"
  by (simp_all add: at_start_def parse_reset_def)

lemma row_line:
  assumes "valid_row row" "line_end eol"
  shows "stream parse_reset mid (render_row row @ eol @ rest)
         = emit_row (reader_row row) (stream parse_reset False rest)"
proof (cases "blank_row row")
  case True
  then have "render_row row = []" by (simp add: blank_row_def render_row_def render_field_def)
  then show ?thesis
    using stream_blank_line [OF start_reset(2) assms(2), of mid rest] True
    by (simp add: reader_row_def start_reset)
next
  case False
  obtain r' mid' where r':
    "\<And>rest. stream parse_reset mid (render_row row @ rest) = stream r' mid' rest"
    "closing r'" "fields_lst r' @ [field r'] = fields_lst parse_reset @ row_values row"
    using row_chars [of row parse_reset mid] assms(1) False start_reset(1)
    by (auto simp: valid_row_def)
  show ?thesis
    using stream_line_end [OF r'(2) assms(2), of mid' rest] r'(1) [of "eol @ rest"] r'(3) False
    by (simp add: reader_row_def start_reset)
qed

lemma row_end:
  assumes "valid_row row" "\<not> blank_row row"
  shows "stream parse_reset mid (render_row row) = Inr [row_values row]"
proof -
  obtain r' mid' where r':
    "\<And>rest. stream parse_reset mid (render_row row @ rest) = stream r' mid' rest"
    "closing r'" "fields_lst r' @ [field r'] = fields_lst parse_reset @ row_values row"
    "mid'"
    using row_chars [of row parse_reset mid] assms start_reset(1)
    by (auto simp: valid_row_def)
  show ?thesis
    using stream_end [OF r'(2)] r'(1) [of "[]"] r'(3,4) by (simp add: start_reset)
qed

lemma row_values_nonempty: "valid_row row \<Longrightarrow> row_values row \<noteq> []"
  by (simp add: valid_row_def row_values_def)

lemma table_rows:
  "\<forall>row \<in> set rows. valid_row row \<Longrightarrow> line_end eol \<Longrightarrow>
   \<exists>rs. stream parse_reset False (render_table eol final rows) = Inr rs
     \<and> filter (\<lambda>r. r \<noteq> []) rs = map row_values (filter (\<lambda>r. \<not> blank_row r) rows)"
proof (induction eol final rows rule: render_table.induct)
  case (1 eol final)
  show ?case by (simp add: parse_reset_def)
next
  case (2 eol final r)
  have v: "valid_row r" using 2 by simp
  show ?case
  proof (cases final)
    case True
    have "stream parse_reset False (render_table eol final [r]) = Inr [reader_row r]"
      using row_line [OF v 2(2), of False "[]"] True
      by (simp add: emit_row_def parse_reset_def)
    then show ?thesis
      using row_values_nonempty [OF v] by (simp add: reader_row_def)
  next
    case False
    show ?thesis
    proof (cases "blank_row r")
      case True
      then have "render_row r = []" by (simp add: blank_row_def render_row_def render_field_def)
      then show ?thesis using True False by (simp add: parse_reset_def)
    next
      case nb: False
      show ?thesis
        using row_end [OF v nb, of False] False nb row_values_nonempty [OF v] by simp
    qed
  qed
next
  case (3 eol final r r' rs)
  have v: "valid_row r" using 3(2) by simp
  obtain rs' where rs': "stream parse_reset False (render_table eol final (r' # rs)) = Inr rs'"
    "filter (\<lambda>r. r \<noteq> []) rs' = map row_values (filter (\<lambda>r. \<not> blank_row r) (r' # rs))"
    using 3 by auto
  have "stream parse_reset False (render_table eol final (r # r' # rs)) = Inr (reader_row r # rs')"
    using row_line [OF v 3(3), of False "render_table eol final (r' # rs)"] rs'(1)
    by (simp add: emit_row_def)
  then show ?case
    using rs'(2) row_values_nonempty [OF v] by (simp add: reader_row_def)
qed

lemma header_rows:
  assumes "valid_row header" "\<not> blank_row header" "\<forall>row \<in> set rows. valid_row row"
    "line_end eol"
  shows "\<exists>rs. stream parse_reset False (render_table eol final (header # rows))
               = Inr (row_values header # rs)
     \<and> filter (\<lambda>r. r \<noteq> []) rs = map row_values (filter (\<lambda>r. \<not> blank_row r) rows)"
proof (cases rows)
  case Nil
  show ?thesis
  proof (cases final)
    case True
    show ?thesis
      using row_line [OF assms(1,4), of False "[]"] True Nil assms(2)
      by (simp add: emit_row_def parse_reset_def reader_row_def)
  next
    case False
    show ?thesis
      using row_end [OF assms(1,2), of False] False Nil by simp
  qed
next
  case (Cons r rs)
  obtain rs' where rs': "stream parse_reset False (render_table eol final rows) = Inr rs'"
    "filter (\<lambda>r. r \<noteq> []) rs' = map row_values (filter (\<lambda>r. \<not> blank_row r) rows)"
    using table_rows [OF assms(3,4)] by blast
  have "stream parse_reset False (render_table eol final (header # rows))
        = Inr (row_values header # rs')"
    using row_line [OF assms(1,4), of False "render_table eol final rows"] rs'(1) assms(2)
    by (simp add: Cons emit_row_def reader_row_def)
  then show ?thesis using rs'(2) by simp
qed

lemma parse_csv_table:
  assumes "valid_row header" "\<not> blank_row header" "\<forall>row \<in> set rows. valid_row row"
    "line_end eol"
  shows "parse_csv (render_table eol final (header # rows))
         = Inr (map (\<lambda>row. DictReader_row (row_values header) (row_values row))
                  (filter (\<lambda>row. \<not> blank_row row) rows))"
proof -
  obtain rs where rs: "stream parse_reset False (render_table eol final (header # rows))
               = Inr (row_values header # rs)"
     "filter (\<lambda>r. r \<noteq> []) rs = map row_values (filter (\<lambda>r. \<not> blank_row r) rows)"
    using header_rows [OF assms] by blast
  have "csv_reader (StringIO_lines (render_table eol final (header # rows)))
        = Inr (row_values header # rs)"
    using rs(1) by (simp only: csv_reader_def stream_lines(1))
  then show ?thesis
    by (simp add: parse_csv_def DictReader_def rs(2) comp_def)
qed

text \<open>
  C1, as stated, fails: the text \<open>a\n\n1\n\<close> has the header row \<open>a\<close> and two data rows, the
  empty value and \<open>1\<close>, but \<open>parse_csv\<close> returns one record: \<open>DictReader\<close> skips the row
  written as an empty line.
\<close>

theorem parse_csv_blank_row_counterexample:
  "valid_row [(False, ascii ''a'')] \<and> valid_row [(False, [])] \<and> valid_row [(False, ascii ''1'')]
   \<and> render_table [10] True [[(False, ascii ''a'')], [(False, [])], [(False, ascii ''1'')]]
     = ascii ''a\<newline>\<newline>1\<newline>''
   \<and> parse_csv (ascii ''a\<newline>\<newline>1\<newline>'') = Inr [[(Some (ascii ''a''), Text (ascii ''1''))]]"
proof -
  have "StringIO_lines (ascii ''a\<newline>\<newline>1\<newline>'') = [ascii ''a\<newline>'', ascii ''\<newline>'', ascii ''1\<newline>'']"
    by (simp add: ascii_def)
  moreover have "csv_reader [ascii ''a\<newline>'', ascii ''\<newline>'', ascii ''1\<newline>'']
                 = Inr [[ascii ''a''], [], [ascii ''1'']]"
    by (simp add: ascii_def csv_reader_def csv_defs)
  ultimately have "parse_csv (ascii ''a\<newline>\<newline>1\<newline>'') = Inr [[(Some (ascii ''a''), Text (ascii ''1''))]]"
    by (simp add: parse_csv_def DictReader_def DictReader_row_def dict_zip_def)
  moreover have "valid_row [(False, ascii ''a'')]" "valid_row [(False, [])]"
    "valid_row [(False, ascii ''1'')]"
    by (simp_all add: valid_row_def valid_field_def unquoted_field_def field_limit_def
        delimiter_def quotechar_def ascii_def)
  moreover have "render_table [10] True [[(False, ascii ''a'')], [(False, [])], [(False, ascii ''1'')]]
     = ascii ''a\<newline>\<newline>1\<newline>''"
    by (simp add: render_row_def render_field_def ascii_def)
  ultimately show ?thesis by simp
qed

text \<open>
  C1 (amended): for every valid tabular text whose header row is not an empty line,
  \<open>parse_csv\<close> returns one record for each data row that is not written as an empty line,
  in the order of the rows; the record of a row is the dictionary that \<open>DictReader\<close> builds
  from the values of the header and the values of the row. So when no data row is an
  empty line, the \<open>N\<close> data rows give \<open>N\<close> records and the \<open>i\<close>-th record belongs to the
  \<open>i\<close>-th row.
\<close>

theorem parse_csv_records:
  assumes "valid_row header" "\<not> blank_row header" "\<forall>row \<in> set rows. valid_row row"
    "line_end eol"
  shows "parse_csv (render_table eol final (header # rows))
           = Inr (map (\<lambda>row. DictReader_row (row_values header) (row_values row))
                    (filter (\<lambda>row. \<not> blank_row row) rows))
         \<and> ((\<forall>row \<in> set rows. \<not> blank_row row) \<longrightarrow>
              (\<exists>records. parse_csv (render_table eol final (header # rows)) = Inr records
                 \<and> length records = length rows
                 \<and> (\<forall>i < length rows.
                      records ! i = DictReader_row (row_values header) (row_values (rows ! i)))))"
proof -
  have "filter (\<lambda>row. \<not> blank_row row) rows = rows" if "\<forall>row \<in> set rows. \<not> blank_row row"
    using that by (induction rows) simp_all
  then show ?thesis
    by (simp add: parse_csv_table [OF assms])
qed

theorem parse_csv_records_witness:
  \<open>parse_csv (ascii ''k,"v,w"'' @ [13, 10] @ ascii ''1,"x""'' @ [10] @ ascii ''y"'' @ [13, 10, 13, 10]
              @ ascii ''"",'')
   = Inr [[(Some (ascii ''k''), Text (ascii ''1'')),
           (Some (ascii ''v,w''), Text (ascii ''x"'' @ [10] @ ascii ''y''))],
          [(Some (ascii ''k''), Text []), (Some (ascii ''v,w''), Text [])]]\<close>
proof -
  let ?header = \<open>[(False, ascii ''k''), (True, ascii ''v,w'')]\<close>
  let ?rows = \<open>[[(False, ascii ''1''), (True, ascii ''x"'' @ [10] @ ascii ''y'')],
                [(False, [])],
                [(True, []), (False, [])]]\<close>
  have 1: "valid_row ?header" and 2: "\<not> blank_row ?header"
    and 3: "\<forall>row \<in> set ?rows. valid_row row"
    by (simp_all add: valid_row_def valid_field_def unquoted_field_def blank_row_def
        field_limit_def delimiter_def quotechar_def ascii_def)
  have 4: "line_end [13, 10]"
    by (simp add: line_end_def)
  have 5: \<open>render_table [13, 10] False (?header # ?rows)
           = ascii ''k,"v,w"'' @ [13, 10] @ ascii ''1,"x""'' @ [10] @ ascii ''y"'' @ [13, 10, 13, 10]
             @ ascii ''"",''\<close>
    by (simp add: render_row_def render_field_def double_quotes_def delimiter_def quotechar_def
        ascii_def)
  have 6: \<open>map (\<lambda>row. DictReader_row (row_values ?header) (row_values row))
             (filter (\<lambda>row. \<not> blank_row row) ?rows)
           = [[(Some (ascii ''k''), Text (ascii ''1'')),
               (Some (ascii ''v,w''), Text (ascii ''x"'' @ [10] @ ascii ''y''))],
              [(Some (ascii ''k''), Text []), (Some (ascii ''v,w''), Text [])]]\<close>
    by (simp add: DictReader_row_def dict_zip_def row_values_def blank_row_def ascii_def)
  show ?thesis
    using parse_csv_records [OF 1 2 3 4, of False] unfolding 5 6 by simp
qed

end
